theory Spec2Isabelle
  imports Complex_Main
begin

section \<open>Python values\<close>

text \<open>
  The module \<^verbatim>\<open>expressions.py\<close> builds immutable expression objects and walks them.
  An object is modelled by its identity (the address Python hashes and compares it by,
  a natural number) together with its contents; allocation takes the next free identity
  from a counter that every constructor call threads through.

  A Python \<^verbatim>\<open>float\<close> is a finite value, a signed zero, an infinity or a NaN. The module
  only ever writes the literals \<^verbatim>\<open>0.0\<close> and \<^verbatim>\<open>1.0\<close>; arithmetic on floats and the printing
  of numbers are Python built-ins and enter the model as parameters.
\<close>

datatype pyfloat = Finite rat | NegZero | PosInf | NegInf | NaN

text \<open>The built-in instances of \<^verbatim>\<open>numbers.Number\<close> (\<^verbatim>\<open>bool\<close> is a subclass of \<^verbatim>\<open>int\<close>).\<close>

datatype pynum = PyInt int | PyBool bool | PyFloat pyfloat | PyComplex pyfloat pyfloat

text \<open>The five concrete subclasses of \<^verbatim>\<open>Operator\<close>.\<close>

datatype opclass = Add | Sub | Mul | Div | Pow'

text \<open>Python's binary operators \<^verbatim>\<open>+\<close>, \<^verbatim>\<open>-\<close>, \<^verbatim>\<open>*\<close>, \<^verbatim>\<open>/\<close> and \<^verbatim>\<open>**\<close>.\<close>

datatype pyop = BAdd | BSub | BMul | BTruediv | BPow

text \<open>
  An expression object: its identity, and for an \<^verbatim>\<open>Operator\<close> its class and the tuple
  \<^verbatim>\<open>self.operands\<close>, for a \<^verbatim>\<open>Number\<close> or \<^verbatim>\<open>Symbol\<close> the validated \<^verbatim>\<open>self.value\<close>
  (a terminal's \<^verbatim>\<open>operands\<close> is the empty tuple).
\<close>

datatype expr =
    Operator nat opclass "expr list"
  | Number nat pynum
  | Symbol nat string

text \<open>
  The values a caller can hand to the module: numbers, strings, expression objects, the
  singleton \<^verbatim>\<open>NotImplemented\<close>, and \<^verbatim>\<open>None\<close> standing for every other object.
\<close>

datatype pyval = VNum pynum | VStr string | VExpr expr | VNotImplemented | VNone

datatype error =
    TypeError string
  | NotImplementedError string
  | IndexError string
  | KeyError
  | RecursionError

text \<open>
  Built-ins the module relies on but does not define: float addition, every other binary
  operation between two values neither of which is an expression, and \<^verbatim>\<open>str\<close> of a number.
\<close>

record builtins =
  float_add :: "pyfloat \<Rightarrow> pyfloat \<Rightarrow> pyfloat"
  builtin_binop :: "pyop \<Rightarrow> pyval \<Rightarrow> pyval \<Rightarrow> error + pyval"
  str_number :: "pynum \<Rightarrow> string"

fun ident :: "expr \<Rightarrow> nat" where
  "ident (Operator i c os) = i"
| "ident (Number i v) = i"
| "ident (Symbol i s) = i"

fun operands :: "expr \<Rightarrow> expr list" where
  "operands (Operator i c os) = os"
| "operands (Number i v) = []"
| "operands (Symbol i s) = []"

text \<open>\<^verbatim>\<open>type(expr).__name__\<close>\<close>

fun type_name :: "expr \<Rightarrow> string" where
  "type_name (Operator i Add os) = ''Add''"
| "type_name (Operator i Sub os) = ''Sub''"
| "type_name (Operator i Mul os) = ''Mul''"
| "type_name (Operator i Div os) = ''Div''"
| "type_name (Operator i Pow' os) = ''Pow''"
| "type_name (Number i v) = ''Number''"
| "type_name (Symbol i s) = ''Symbol''"

text \<open>The class attributes \<^verbatim>\<open>precedence\<close> and \<^verbatim>\<open>symbol\<close>.\<close>

fun precedence :: "expr \<Rightarrow> nat" where
  "precedence (Operator i Add os) = 0"
| "precedence (Operator i Sub os) = 0"
| "precedence (Operator i Mul os) = 1"
| "precedence (Operator i Div os) = 1"
| "precedence (Operator i Pow' os) = 2"
| "precedence (Number i v) = 3"
| "precedence (Symbol i s) = 3"

fun symbol :: "opclass \<Rightarrow> string" where
  "symbol Add = ''+''"
| "symbol Sub = ''-''"
| "symbol Mul = ''*''"
| "symbol Div = ''/''"
| "symbol Pow' = ''^''"

section \<open>Construction\<close>

text \<open>
  A computation that may allocate objects takes the next free identity and returns an
  error, or its value with the advanced counter.
\<close>

type_synonym 'a alloc = "nat \<Rightarrow> error + 'a \<times> nat"

definition ret :: "'a \<Rightarrow> 'a alloc" where
  "ret x n = Inr (x, n)"

definition raise :: "error \<Rightarrow> 'a alloc" where
  "raise err n = Inl err"

definition bind :: "'a alloc \<Rightarrow> ('a \<Rightarrow> 'b alloc) \<Rightarrow> 'b alloc" where
  "bind m f n = (case m n of Inl err \<Rightarrow> Inl err | Inr (x, n') \<Rightarrow> f x n')"

fun isinstance_Number :: "pyval \<Rightarrow> bool" where
  "isinstance_Number (VNum v) = True"
| "isinstance_Number other = False"

fun isinstance_str :: "pyval \<Rightarrow> bool" where
  "isinstance_str (VStr s) = True"
| "isinstance_str other = False"

fun isinstance_Expression :: "pyval \<Rightarrow> bool" where
  "isinstance_Expression (VExpr e) = True"
| "isinstance_Expression other = False"

text \<open>\<^verbatim>\<open>Add(a, b)\<close> and its siblings: \<^verbatim>\<open>Expression.__init__\<close> stores the operands.\<close>

definition Operator_init :: "opclass \<Rightarrow> expr list \<Rightarrow> pyval alloc" where
  "Operator_init c os n = Inr (VExpr (Operator n c os), Suc n)"

text \<open>\<^verbatim>\<open>Number(value)\<close>\<close>

definition Number_init :: "pyval \<Rightarrow> expr alloc" where
  "Number_init v n =
     (case v of
        VNum x \<Rightarrow> Inr (Number n x, Suc n)
      | _ \<Rightarrow> Inl (TypeError ''Value passed to Number should be a number.''))"

text \<open>\<^verbatim>\<open>Symbol(value)\<close>\<close>

definition Symbol_init :: "pyval \<Rightarrow> expr alloc" where
  "Symbol_init v n =
     (case v of
        VStr s \<Rightarrow> Inr (Symbol n s, Suc n)
      | _ \<Rightarrow> Inl (TypeError ''Value passed to Symbol should be a string.''))"

text \<open>
  The body shared by the ten arithmetic methods of \<^verbatim>\<open>Expression\<close>: \<^verbatim>\<open>other\<close> is used as
  it is when it is an expression, wrapped in \<^verbatim>\<open>Number\<close> when it is a number, and anything
  else gives \<^verbatim>\<open>NotImplemented\<close>. \<open>mk\<close> builds the node from \<^verbatim>\<open>self\<close> and the lifted operand.
\<close>

definition lift_other :: "pyval \<Rightarrow> (expr \<Rightarrow> pyval alloc) \<Rightarrow> pyval alloc" where
  "lift_other other mk =
     (case other of
        VExpr e \<Rightarrow> mk e
      | VNum x \<Rightarrow> bind (Number_init other) mk
      | _ \<Rightarrow> ret VNotImplemented)"

definition Expression_add :: "expr \<Rightarrow> pyval \<Rightarrow> pyval alloc" where
  "Expression_add self other = lift_other other (\<lambda>x. Operator_init Add [self, x])"

definition Expression_radd :: "expr \<Rightarrow> pyval \<Rightarrow> pyval alloc" where
  "Expression_radd self other = lift_other other (\<lambda>x. Operator_init Add [x, self])"

definition Expression_sub :: "expr \<Rightarrow> pyval \<Rightarrow> pyval alloc" where
  "Expression_sub self other = lift_other other (\<lambda>x. Operator_init Sub [self, x])"

definition Expression_rsub :: "expr \<Rightarrow> pyval \<Rightarrow> pyval alloc" where
  "Expression_rsub self other = lift_other other (\<lambda>x. Operator_init Sub [x, self])"

definition Expression_mul :: "expr \<Rightarrow> pyval \<Rightarrow> pyval alloc" where
  "Expression_mul self other = lift_other other (\<lambda>x. Operator_init Mul [self, x])"

definition Expression_rmul :: "expr \<Rightarrow> pyval \<Rightarrow> pyval alloc" where
  "Expression_rmul self other = lift_other other (\<lambda>x. Operator_init Mul [x, self])"

definition Expression_truediv :: "expr \<Rightarrow> pyval \<Rightarrow> pyval alloc" where
  "Expression_truediv self other = lift_other other (\<lambda>x. Operator_init Div [self, x])"

definition Expression_rtruediv :: "expr \<Rightarrow> pyval \<Rightarrow> pyval alloc" where
  "Expression_rtruediv self other = lift_other other (\<lambda>x. Operator_init Div [x, self])"

definition Expression_pow :: "expr \<Rightarrow> pyval \<Rightarrow> pyval alloc" where
  "Expression_pow self other = lift_other other (\<lambda>x. Operator_init Pow' [self, x])"

definition Expression_rpow :: "expr \<Rightarrow> pyval \<Rightarrow> pyval alloc" where
  "Expression_rpow self other = lift_other other (\<lambda>x. Operator_init Pow' [x, self])"

text \<open>
  The binary operators. With an expression on the left its method runs first; with an expression on the right
  only, the built-in left operand declines and the reflected method runs. A
  \<^verbatim>\<open>NotImplemented\<close> from the last method tried is a \<^verbatim>\<open>TypeError\<close>. With no expression on
  either side the operation is a built-in.
\<close>

fun forward_method :: "pyop \<Rightarrow> expr \<Rightarrow> pyval \<Rightarrow> pyval alloc" where
  "forward_method BAdd = Expression_add"
| "forward_method BSub = Expression_sub"
| "forward_method BMul = Expression_mul"
| "forward_method BTruediv = Expression_truediv"
| "forward_method BPow = Expression_pow"

fun reflected_method :: "pyop \<Rightarrow> expr \<Rightarrow> pyval \<Rightarrow> pyval alloc" where
  "reflected_method BAdd = Expression_radd"
| "reflected_method BSub = Expression_rsub"
| "reflected_method BMul = Expression_rmul"
| "reflected_method BTruediv = Expression_rtruediv"
| "reflected_method BPow = Expression_rpow"

definition unsupported :: "pyval \<Rightarrow> pyval alloc" where
  "unsupported r =
     (if r = VNotImplemented then raise (TypeError ''unsupported operand type(s)'') else ret r)"

fun py_builtin_binop :: "builtins \<Rightarrow> pyop \<Rightarrow> pyval \<Rightarrow> pyval \<Rightarrow> pyval alloc" where
  "py_builtin_binop B BAdd (VNum (PyFloat x)) (VNum (PyFloat y)) =
     ret (VNum (PyFloat (float_add B x y)))"
| "py_builtin_binop B c a b =
     (case builtin_binop B c a b of Inl err \<Rightarrow> raise err | Inr r \<Rightarrow> ret r)"

definition py_binop :: "builtins \<Rightarrow> pyop \<Rightarrow> pyval \<Rightarrow> pyval \<Rightarrow> pyval alloc" where
  "py_binop B c a b =
     (case a of
        VExpr self \<Rightarrow> bind (forward_method c self b) unsupported
      | _ \<Rightarrow>
        (case b of
           VExpr self \<Rightarrow> bind (reflected_method c self a) unsupported
         | _ \<Rightarrow> py_builtin_binop B c a b))"

section \<open>Rendering\<close>

text \<open>\<^verbatim>\<open>sep.join(xs)\<close>\<close>

fun join :: "string \<Rightarrow> string list \<Rightarrow> string" where
  "join sep [] = []"
| "join sep [x] = x"
| "join sep (x # y # ys) = x @ sep @ join sep (y # ys)"

text \<open>
  The strings \<^verbatim>\<open>map(parentheses, self.operands)\<close> hands to \<^verbatim>\<open>join\<close>, computed in operand
  order: the first operand whose \<^verbatim>\<open>str\<close> raises ends the call.
\<close>

fun collect :: "(error + 'a) list \<Rightarrow> error + 'a list" where
  "collect [] = Inr []"
| "collect (Inl err # rs) = Inl err"
| "collect (Inr x # rs) = (case collect rs of Inl err \<Rightarrow> Inl err | Inr xs \<Rightarrow> Inr (x # xs))"

text \<open>
  \<^verbatim>\<open>Operator.__str__\<close> and \<^verbatim>\<open>Terminal.__str__\<close>, the result of \<^verbatim>\<open>str(expr)\<close>.
  \<^verbatim>\<open>Operator.__str__\<close> calls \<^verbatim>\<open>str\<close> on each operand from its inner function
  \<^verbatim>\<open>parentheses\<close>, so the calls nest on the interpreter's stack once per level of the
  expression. \<open>depth\<close> is the number of nested \<^verbatim>\<open>str\<close> calls on expression objects that
  the interpreter's recursion limit still admits; the call that exceeds it raises
  \<^verbatim>\<open>RecursionError\<close>, which no frame of the module catches.
\<close>

fun Expression_str :: "builtins \<Rightarrow> nat \<Rightarrow> expr \<Rightarrow> error + string" where
  "Expression_str B 0 e = Inl RecursionError"
| "Expression_str B (Suc depth) (Operator i c os) =
     (case collect
        (map (\<lambda>operand.
                case Expression_str B depth operand of
                  Inl err \<Rightarrow> Inl err
                | Inr s \<Rightarrow>
                    Inr (if precedence operand < precedence (Operator i c os)
                         then ''('' @ s @ '')''
                         else s)) os) of
        Inl err \<Rightarrow> Inl err
      | Inr strs \<Rightarrow> Inr (join ('' '' @ symbol c @ '' '') strs))"
| "Expression_str B (Suc depth) (Number i v) = Inr (str_number B v)"
| "Expression_str B (Suc depth) (Symbol i s) = Inr s"

section \<open>Generic post-order reduction\<close>

text \<open>
  One call of the step function \<^verbatim>\<open>fn\<close> made by \<^verbatim>\<open>postvisitor\<close>: the node, the positional
  arguments after it, and what the call returned or raised. The list of calls is an
  observer's record of the run; the loop never reads it.
\<close>

type_synonym 'r call = "expr \<times> 'r list \<times> (error + 'r)"

text \<open>\<^verbatim>\<open>(visited[o] for o in e.operands)\<close>: a missing key raises \<^verbatim>\<open>KeyError\<close>.\<close>

fun lookups :: "(nat \<rightharpoonup> 'r) \<Rightarrow> expr list \<Rightarrow> error + 'r list" where
  "lookups visited [] = Inr []"
| "lookups visited (x # xs) =
     (case visited (ident x) of
        None \<Rightarrow> Inl KeyError
      | Some r \<Rightarrow> (case lookups visited xs of Inl err \<Rightarrow> Inl err | Inr rs \<Rightarrow> Inr (r # rs)))"

text \<open>The identities of all objects reachable from an expression.\<close>

fun ids :: "expr \<Rightarrow> nat set" where
  "ids (Operator i c os) = insert i (\<Union> (ids ` set os))"
| "ids (Number i v) = {i}"
| "ids (Symbol i s) = {i}"

text \<open>
  The \<^verbatim>\<open>while stack:\<close> loop of \<^verbatim>\<open>postvisitor\<close>. The stack is the Python list: \<^verbatim>\<open>pop\<close> takes
  its last element, \<^verbatim>\<open>append\<close> and \<^verbatim>\<open>extend\<close> add at the end. \<^verbatim>\<open>visited\<close> is the dictionary,
  keyed by object identity. The step function may keep state of its own (\<open>s\<close>); the
  expression objects are immutable. An exception raised by \<^verbatim>\<open>fn\<close> ends the loop.
\<close>

function postvisitor_loop ::
  "(expr \<Rightarrow> 'r list \<Rightarrow> 'k \<Rightarrow> 's \<Rightarrow> error + 'r \<times> 's) \<Rightarrow> 'k \<Rightarrow> expr list \<Rightarrow> (nat \<rightharpoonup> 'r) \<Rightarrow>
     'r call list \<Rightarrow> 's \<Rightarrow> 'r call list \<times> (error + (nat \<rightharpoonup> 'r) \<times> 's)" where
  "postvisitor_loop fn kwargs stack visited calls s =
     (if stack = [] then (calls, Inr (visited, s))
      else
        let e = last stack;
            unvisited_children = filter (\<lambda>o'. visited (ident o') = None) (operands e)
        in
          if unvisited_children \<noteq> []
          then postvisitor_loop fn kwargs (butlast stack @ [e] @ unvisited_children) visited calls s
          else
            (case lookups visited (operands e) of
               Inl err \<Rightarrow> (calls, Inl err)
             | Inr args \<Rightarrow>
               (case fn e args kwargs s of
                  Inl err \<Rightarrow> (calls @ [(e, args, Inl err)], Inl err)
                | Inr (r, s') \<Rightarrow>
                    postvisitor_loop fn kwargs (butlast stack) (visited(ident e \<mapsto> r))
                      (calls @ [(e, args, Inr r)]) s')))"
  by pat_completeness auto

lemma finite_ids: "finite (ids x)"
  by (induction x) auto

lemma ids_operands: "c \<in> set (operands x) \<Longrightarrow> ids c \<subseteq> ids x"
  by (cases x) auto

lemma size_operands: "c \<in> set (operands x) \<Longrightarrow> size c < size x"
  by (cases x) (auto simp: less_Suc_eq_le intro: size_list_estimation')

lemma ident_in_ids: "ident x \<in> ids x"
  by (cases x) auto

termination postvisitor_loop
proof (relation "measures [\<lambda>(fn, kwargs, stack, visited, calls, s). card ((\<Union> (ids ` set stack)) - dom visited),
                           \<lambda>(fn, kwargs, stack, visited, calls, s). length (filter (\<lambda>x. ident x \<in> dom visited) stack),
                           \<lambda>(fn, kwargs, stack, visited, calls, s). size (last stack)]", goal_cases)
  case 1
  then show ?case by simp
next
  case (2 fn kwargs stack visited calls s e uc)
  have st: "butlast stack @ [e] = stack"
    using 2 by simp
  have sub: "set uc \<subseteq> set (operands e)"
    using 2 by auto
  have e_in: "e \<in> set stack"
    using 2 by simp
  have "\<Union> (ids ` set uc) \<subseteq> ids e"
    using sub ids_operands by blast
  then have u: "\<Union> (ids ` set (stack @ uc)) = \<Union> (ids ` set stack)"
    using e_in by auto
  have f: "filter (\<lambda>x. ident x \<in> dom visited) uc = []"
    using 2 by (auto simp: filter_empty_conv)
  have "last uc \<in> set (operands e)"
    using 2 sub last_in_set by blast
  then have sz: "size (last (stack @ uc)) < size (last stack)"
    using 2 size_operands by simp
  have eq: "butlast stack @ [e] @ uc = stack @ uc"
    using st by simp
  have c1: "card (\<Union> (ids ` set (stack @ uc)) - dom visited) = card (\<Union> (ids ` set stack) - dom visited)"
    by (simp only: u)
  have c2: "length (filter (\<lambda>x. ident x \<in> dom visited) (stack @ uc))
            = length (filter (\<lambda>x. ident x \<in> dom visited) stack)"
    using f by simp
  show ?case
    unfolding eq by (simp only: in_measures prod.case c1 c2 sz simp_thms)
next
  case (3 fn kwargs stack visited calls s e uc args rs r s')
  have st: "stack = butlast stack @ [e]"
    using 3 by simp
  let ?old = "\<Union> (ids ` set stack) - dom visited"
  let ?new = "\<Union> (ids ` set (butlast stack)) - dom (visited(ident e \<mapsto> r))"
  have fin: "finite ?old"
    using finite_ids by auto
  have sub: "?new \<subseteq> ?old"
    using in_set_butlastD[of _ stack] by auto
  show ?case
  proof (cases "ident e \<in> dom visited")
    case True
    have le: "card ?new \<le> card ?old"
      using sub fin by (rule card_mono[rotated])
    have "length (filter (\<lambda>x. ident x \<in> dom visited) stack)
          = length (filter (\<lambda>x. ident x \<in> dom visited) (butlast stack)) + 1"
      using True by (subst st) (simp del: butlast_snoc)
    moreover have "dom (visited(ident e \<mapsto> r)) = dom visited"
      using True by auto
    ultimately show ?thesis
      using le by (simp only: in_measures prod.case) linarith
  next
    case False
    have "e \<in> set stack"
      using 3 by simp
    then have "ident e \<in> ?old"
      using False ident_in_ids by auto
    moreover have "ident e \<notin> ?new"
      by simp
    ultimately have "?new \<subset> ?old"
      using sub by blast
    then have "card ?new < card ?old"
      using fin by (rule psubset_card_mono[rotated])
    then show ?thesis by simp
  qed
qed

declare postvisitor_loop.simps [simp del]

text \<open>\<^verbatim>\<open>postvisitor(expr, fn, **kwargs)\<close>: the loop from \<^verbatim>\<open>[expr]\<close>, then \<^verbatim>\<open>visited[expr]\<close>.\<close>

definition postvisitor ::
  "expr \<Rightarrow> (expr \<Rightarrow> 'r list \<Rightarrow> 'k \<Rightarrow> 's \<Rightarrow> error + 'r \<times> 's) \<Rightarrow> 'k \<Rightarrow> 's \<Rightarrow>
     'r call list \<times> (error + 'r \<times> 's)" where
  "postvisitor expr fn kwargs s =
     (case postvisitor_loop fn kwargs [expr] Map.empty [] s of
        (calls, Inl err) \<Rightarrow> (calls, Inl err)
      | (calls, Inr (visited, s')) \<Rightarrow>
          (case visited (ident expr) of
             None \<Rightarrow> (calls, Inl KeyError)
           | Some r \<Rightarrow> (calls, Inr (r, s'))))"

section \<open>Differentiation rules\<close>

text \<open>\<^verbatim>\<open>xs[i]\<close> for a literal index \<^verbatim>\<open>i \<ge> 0\<close> into a tuple.\<close>

definition getitem :: "'a list \<Rightarrow> nat \<Rightarrow> 'a alloc" where
  "getitem xs i = (if i < length xs then ret (xs ! i) else raise (IndexError ''tuple index out of range''))"

text \<open>The fallback of the \<^verbatim>\<open>singledispatch\<close> function.\<close>

definition differentiate_default :: "builtins \<Rightarrow> expr \<Rightarrow> pyval list \<Rightarrow> (string \<rightharpoonup> pyval) \<Rightarrow> pyval alloc" where
  "differentiate_default B expr o' kwargs =
     raise (NotImplementedError (''Cannot differentiate '' @ type_name expr))"

definition differentiate_Number :: "builtins \<Rightarrow> expr \<Rightarrow> pyval list \<Rightarrow> (string \<rightharpoonup> pyval) \<Rightarrow> pyval alloc" where
  "differentiate_Number B expr o' kwargs = ret (VNum (PyFloat (Finite 0)))"

text \<open>
  The rule for \<^verbatim>\<open>Symbol\<close> has the keyword-only parameter \<^verbatim>\<open>var\<close>: calling it without is a
  \<^verbatim>\<open>TypeError\<close>. \<^verbatim>\<open>expr.value\<close> is a string, which equals only an equal string.
\<close>

definition differentiate_Symbol :: "builtins \<Rightarrow> string \<Rightarrow> pyval list \<Rightarrow> (string \<rightharpoonup> pyval) \<Rightarrow> pyval alloc" where
  "differentiate_Symbol B expr_value o' kwargs =
     (case kwargs ''var'' of
        None \<Rightarrow> raise (TypeError ''missing 1 required keyword-only argument: var'')
      | Some var \<Rightarrow>
          ret (VNum (PyFloat (if VStr expr_value = var then Finite 1 else Finite 0))))"

text \<open>\<^verbatim>\<open>o[0] + o[1]\<close>\<close>

definition differentiate_Add :: "builtins \<Rightarrow> expr \<Rightarrow> pyval list \<Rightarrow> (string \<rightharpoonup> pyval) \<Rightarrow> pyval alloc" where
  "differentiate_Add B expr o' kwargs =
     bind (getitem o' 0) (\<lambda>o0.
     bind (getitem o' 1) (\<lambda>o1.
     py_binop B BAdd o0 o1))"

text \<open>\<^verbatim>\<open>(o[0] * expr.operands[1]) + (o[1] * expr.operands[0])\<close>\<close>

definition differentiate_Mul :: "builtins \<Rightarrow> expr \<Rightarrow> pyval list \<Rightarrow> (string \<rightharpoonup> pyval) \<Rightarrow> pyval alloc" where
  "differentiate_Mul B expr o' kwargs =
     bind (getitem o' 0) (\<lambda>o0.
     bind (getitem (operands expr) 1) (\<lambda>b.
     bind (py_binop B BMul o0 (VExpr b)) (\<lambda>t1.
     bind (getitem o' 1) (\<lambda>o1.
     bind (getitem (operands expr) 0) (\<lambda>a.
     bind (py_binop B BMul o1 (VExpr a)) (\<lambda>t2.
     py_binop B BAdd t1 t2))))))"

text \<open>\<^verbatim>\<open>((o[0] * expr.operands[1]) - (expr.operands[0] * o[1])) / (expr.operands[1] ** 2)\<close>\<close>

definition differentiate_Div :: "builtins \<Rightarrow> expr \<Rightarrow> pyval list \<Rightarrow> (string \<rightharpoonup> pyval) \<Rightarrow> pyval alloc" where
  "differentiate_Div B expr o' kwargs =
     bind (getitem o' 0) (\<lambda>o0.
     bind (getitem (operands expr) 1) (\<lambda>b.
     bind (py_binop B BMul o0 (VExpr b)) (\<lambda>t1.
     bind (getitem (operands expr) 0) (\<lambda>a.
     bind (getitem o' 1) (\<lambda>o1.
     bind (py_binop B BMul (VExpr a) o1) (\<lambda>t2.
     bind (py_binop B BSub t1 t2) (\<lambda>t3.
     bind (getitem (operands expr) 1) (\<lambda>b'.
     bind (py_binop B BPow (VExpr b') (VNum (PyInt 2))) (\<lambda>t4.
     py_binop B BTruediv t3 t4)))))))))"

text \<open>
  \<^verbatim>\<open>o[0] * expr.operands[1] * (expr.operands[0] ** (expr.operands[1] - 1))\<close>: the product
  associates to the left and \<^verbatim>\<open>**\<close> binds tighter than \<^verbatim>\<open>*\<close>.
\<close>

definition differentiate_Pow :: "builtins \<Rightarrow> expr \<Rightarrow> pyval list \<Rightarrow> (string \<rightharpoonup> pyval) \<Rightarrow> pyval alloc" where
  "differentiate_Pow B expr o' kwargs =
     bind (getitem o' 0) (\<lambda>o0.
     bind (getitem (operands expr) 1) (\<lambda>b.
     bind (py_binop B BMul o0 (VExpr b)) (\<lambda>t1.
     bind (getitem (operands expr) 0) (\<lambda>a.
     bind (getitem (operands expr) 1) (\<lambda>b'.
     bind (py_binop B BSub (VExpr b') (VNum (PyInt 1))) (\<lambda>t2.
     bind (py_binop B BPow (VExpr a) t2) (\<lambda>t3.
     py_binop B BMul t1 t3)))))))"

text \<open>
  \<^verbatim>\<open>differentiate(expr, *o, **kwargs)\<close>: dispatch on the class of \<^verbatim>\<open>expr\<close>. Rules are
  registered for \<^verbatim>\<open>Number\<close>, \<^verbatim>\<open>Symbol\<close>, \<^verbatim>\<open>Add\<close>, \<^verbatim>\<open>Mul\<close>, \<^verbatim>\<open>Div\<close> and \<^verbatim>\<open>Pow\<close>; \<^verbatim>\<open>Sub\<close> falls
  through to the default.
\<close>

fun differentiate :: "builtins \<Rightarrow> expr \<Rightarrow> pyval list \<Rightarrow> (string \<rightharpoonup> pyval) \<Rightarrow> pyval alloc" where
  "differentiate B (Number i v) o' kwargs = differentiate_Number B (Number i v) o' kwargs"
| "differentiate B (Symbol i s) o' kwargs = differentiate_Symbol B s o' kwargs"
| "differentiate B (Operator i Add os) o' kwargs = differentiate_Add B (Operator i Add os) o' kwargs"
| "differentiate B (Operator i Mul os) o' kwargs = differentiate_Mul B (Operator i Mul os) o' kwargs"
| "differentiate B (Operator i Div os) o' kwargs = differentiate_Div B (Operator i Div os) o' kwargs"
| "differentiate B (Operator i Pow' os) o' kwargs = differentiate_Pow B (Operator i Pow' os) o' kwargs"
| "differentiate B (Operator i Sub os) o' kwargs = differentiate_default B (Operator i Sub os) o' kwargs"

section \<open>Notions used in the statements\<close>

text \<open>
  A stand-in for the built-ins, for running the model on examples: it agrees with Python
  on the sum of two small whole floats and on \<^verbatim>\<open>str(1.0)\<close> and \<^verbatim>\<open>str(0.0)\<close>, which is all
  the examples below use.
\<close>

definition sample_builtins :: builtins where
  "sample_builtins =
     \<lparr> float_add = (\<lambda>x y. case (x, y) of (Finite a, Finite b) \<Rightarrow> Finite (a + b) | _ \<Rightarrow> NaN),
       builtin_binop = (\<lambda>c a b. Inl (TypeError ''unsupported operand type(s)'')),
       str_number = (\<lambda>v. if v = PyFloat (Finite 1) then ''1.0'' else ''0.0'') \<rparr>"

text \<open>
  A step function that only counts how often it is called: its state is the number of
  calls so far.
\<close>

definition counting_step :: "expr \<Rightarrow> unit list \<Rightarrow> unit \<Rightarrow> nat \<Rightarrow> error + unit \<times> nat" where
  "counting_step e args kwargs count = Inr ((), Suc count)"

text \<open>Every operator node has exactly two operands, as the arithmetic methods build them.\<close>

fun binary :: "expr \<Rightarrow> bool" where
  "binary (Operator i c os) = (length os = 2 \<and> list_all binary os)"
| "binary (Number i v) = True"
| "binary (Symbol i s) = True"

text \<open>
  The rendering rule in the specification's words, for comparison with \<open>Expression_str\<close>:
  precedence levels Add/Sub = 0, Mul/Div = 1, Pow = 2, terminals highest; a child is put
  in parentheses exactly when its level is strictly lower than its parent's.
\<close>

fun spec_level :: "expr \<Rightarrow> nat" where
  "spec_level (Operator i c os) =
     (if c = Add \<or> c = Sub then 0 else if c = Mul \<or> c = Div then 1 else 2)"
| "spec_level (Number i v) = 3"
| "spec_level (Symbol i s) = 3"

fun spec_render :: "builtins \<Rightarrow> expr \<Rightarrow> string" where
  "spec_render B (Operator i c [l, r]) =
     (if spec_level l < spec_level (Operator i c [l, r])
      then ''('' @ spec_render B l @ '')'' else spec_render B l)
     @ '' '' @ symbol c @ '' '' @
     (if spec_level r < spec_level (Operator i c [l, r])
      then ''('' @ spec_render B r @ '')'' else spec_render B r)"
| "spec_render B (Operator i c os) = []"
| "spec_render B (Number i v) = str_number B v"
| "spec_render B (Symbol i s) = s"

text \<open>
  The nesting depth of an expression: the number of \<^verbatim>\<open>str\<close> calls that are active at once
  while its deepest terminal is rendered.
\<close>

fun max_list :: "nat list \<Rightarrow> nat" where
  "max_list [] = 0"
| "max_list (x # xs) = max x (max_list xs)"

fun height :: "expr \<Rightarrow> nat" where
  "height (Operator i c os) = Suc (max_list (map height os))"
| "height (Number i v) = 1"
| "height (Symbol i s) = 1"

text \<open>
  The sum a loop builds, \<^verbatim>\<open>e = Symbol('x')\<close> followed by \<open>k\<close> rounds of \<^verbatim>\<open>e = e + 1\<close>, every
  object numbered in the order of its construction.
\<close>

fun loop_sum :: "nat \<Rightarrow> expr" where
  "loop_sum 0 = Symbol 0 ''x''"
| "loop_sum (Suc k) = Operator (2 * k + 2) Add [loop_sum k, Number (2 * k + 1) (PyInt 1)]"

text \<open>All objects reachable from an expression, itself included.\<close>

fun subexprs :: "expr \<Rightarrow> expr list" where
  "subexprs (Operator i c os) = Operator i c os # concat (map subexprs os)"
| "subexprs (Number i v) = [Number i v]"
| "subexprs (Symbol i s) = [Symbol i s]"

text \<open>
  Identities identify: two reachable objects with the same identity are the same object.
  Every object graph Python can build has this property.
\<close>

definition wf_ids :: "expr \<Rightarrow> bool" where
  "wf_ids e = (\<forall>x\<in>set (subexprs e). \<forall>y\<in>set (subexprs e). ident x = ident y \<longrightarrow> x = y)"

text \<open>
  The dictionary \<^verbatim>\<open>visited\<close> as an observer reconstructs it from the calls made so far:
  each call that returned stores its result under the identity of its node.
\<close>

definition cache_of :: "'r call list \<Rightarrow> (nat \<rightharpoonup> 'r)" where
  "cache_of calls =
     foldl (\<lambda>m (x, args, res). case res of Inl err \<Rightarrow> m | Inr r \<Rightarrow> m(ident x \<mapsto> r)) Map.empty calls"

text \<open>
  A call is in post-order when its arguments are, operand by operand, the results the
  calls before it left in the cache; in particular every operand has one.
\<close>

fun call_ok :: "'r call list \<Rightarrow> 'r call \<Rightarrow> bool" where
  "call_ok before (x, args, res) =
     (map Some args = map (\<lambda>c. cache_of before (ident c)) (operands x))"

text \<open>Every call of a run is in post-order with respect to the calls before it.\<close>

definition post_order :: "'r call list \<Rightarrow> bool" where
  "post_order calls = (\<forall>i<length calls. call_ok (take i calls) (calls ! i))"

text \<open>Some reachable node is of the given operator class.\<close>

fun has_class :: "opclass \<Rightarrow> expr \<Rightarrow> bool" where
  "has_class k (Operator i c os) = (c = k \<or> list_ex (has_class k) os)"
| "has_class k (Number i v) = False"
| "has_class k (Symbol i s) = False"

text \<open>Every reachable node is a terminal or an \<^verbatim>\<open>Add\<close>.\<close>

fun add_only :: "expr \<Rightarrow> bool" where
  "add_only (Operator i c os) = (c = Add \<and> list_all add_only os)"
| "add_only (Number i v) = True"
| "add_only (Symbol i s) = True"

text \<open>A plain Python float, as opposed to an expression object.\<close>

fun is_float :: "pyval \<Rightarrow> bool" where
  "is_float (VNum (PyFloat f)) = True"
| "is_float other = False"

text \<open>The class of node each binary operator builds.\<close>

fun node_class :: "pyop \<Rightarrow> opclass" where
  "node_class BAdd = Add"
| "node_class BSub = Sub"
| "node_class BMul = Mul"
| "node_class BTruediv = Div"
| "node_class BPow = Pow'"

text \<open>
  What the differentiation step leaves in the cache for a node \<open>x\<close> it succeeded on: \<open>x\<close> has
  no \<^verbatim>\<open>Sub\<close> node; the result is a plain float when \<open>x\<close> consists of \<^verbatim>\<open>Add\<close> nodes and
  terminals only, and otherwise an expression with two operands per node, which holds a
  \<^verbatim>\<open>Sub\<close> node whenever \<open>x\<close> holds a \<^verbatim>\<open>Div\<close> or a \<^verbatim>\<open>Pow\<close>.
\<close>

definition derivative_ok :: "expr \<Rightarrow> pyval \<Rightarrow> bool" where
  "derivative_ok x r =
     (\<not> has_class Sub x
      \<and> (if add_only x then is_float r
          else (case r of
                  VExpr d \<Rightarrow> binary d \<and> (has_class Div x \<or> has_class Pow' x \<longrightarrow> has_class Sub d)
                | _ \<Rightarrow> False)))"

text \<open>The exception of the default rule on a \<^verbatim>\<open>Sub\<close> node.\<close>

definition cannot_differentiate_Sub :: error where
  "cannot_differentiate_Sub = NotImplementedError ''Cannot differentiate Sub''"

text \<open>The allocation counter lies above every identity already in use.\<close>

definition fresh :: "nat \<Rightarrow> expr \<Rightarrow> bool" where
  "fresh n e = (\<forall>x\<in>set (subexprs e). ident x < n)"

text \<open>
  A store of objects against a counter: identities identify, every identity lies below
  the counter, and the operands of a stored object are stored.
\<close>

definition known :: "expr set \<Rightarrow> nat \<Rightarrow> bool" where
  "known S n =
     ((\<forall>x\<in>S. \<forall>y\<in>S. ident x = ident y \<longrightarrow> x = y)
      \<and> (\<forall>x\<in>S. ident x < n)
      \<and> (\<forall>x\<in>S. set (operands x) \<subseteq> S))"

text \<open>A value made of stored objects: a number, or a stored expression.\<close>

fun operand_in :: "expr set \<Rightarrow> pyval \<Rightarrow> bool" where
  "operand_in S (VExpr e) = (e \<in> S)"
| "operand_in S (VNum x) = True"
| "operand_in S other = False"

text \<open>
  A computation that, started on a store, returns an expression and leaves a larger
  store that holds it.
\<close>

definition yields_expr :: "expr set \<Rightarrow> nat \<Rightarrow> pyval alloc \<Rightarrow> bool" where
  "yields_expr S n m = (\<exists>e n' S'. m n = Inr (VExpr e, n') \<and> S \<subseteq> S' \<and> known S' n' \<and> e \<in> S')"

section \<open>Construction and rendering\<close>

lemmas alloc_defs = bind_def ret_def raise_def

text \<open>
  C3. \<^verbatim>\<open>Number(v)\<close> raises a \<^verbatim>\<open>TypeError\<close> exactly when \<^verbatim>\<open>v\<close> is not a number and
  \<^verbatim>\<open>Symbol(v)\<close> exactly when \<^verbatim>\<open>v\<close> is not a string; on a number, respectively a string,
  the constructor returns a fresh terminal holding that value.
\<close>

theorem number_symbol_validation:
  "((\<exists>msg. Number_init v n = Inl (TypeError msg)) = (\<not> isinstance_Number v))
   \<and> ((\<exists>msg. Symbol_init v n = Inl (TypeError msg)) = (\<not> isinstance_str v))
   \<and> Number_init (VNum x) n = Inr (Number n x, Suc n)
   \<and> Symbol_init (VStr s) n = Inr (Symbol n s, Suc n)
   \<and> isinstance_Number v = (\<exists>y. v = VNum y)
   \<and> isinstance_str v = (\<exists>t. v = VStr t)"
  by (cases v) (simp_all add: Number_init_def Symbol_init_def)

text \<open>
  C4. For each of the five operators, an expression combined with a bare number on
  either side gives the operator node whose operands are, in the written order, the
  expression and a fresh \<^verbatim>\<open>Number\<close> holding the literal: nothing is reordered.
\<close>

theorem literal_lifting_keeps_order:
  "py_binop B BAdd (VExpr e) (VNum x) n = Inr (VExpr (Operator (Suc n) Add [e, Number n x]), Suc (Suc n))
   \<and> py_binop B BAdd (VNum x) (VExpr e) n = Inr (VExpr (Operator (Suc n) Add [Number n x, e]), Suc (Suc n))
   \<and> py_binop B BSub (VExpr e) (VNum x) n = Inr (VExpr (Operator (Suc n) Sub [e, Number n x]), Suc (Suc n))
   \<and> py_binop B BSub (VNum x) (VExpr e) n = Inr (VExpr (Operator (Suc n) Sub [Number n x, e]), Suc (Suc n))
   \<and> py_binop B BMul (VExpr e) (VNum x) n = Inr (VExpr (Operator (Suc n) Mul [e, Number n x]), Suc (Suc n))
   \<and> py_binop B BMul (VNum x) (VExpr e) n = Inr (VExpr (Operator (Suc n) Mul [Number n x, e]), Suc (Suc n))
   \<and> py_binop B BTruediv (VExpr e) (VNum x) n = Inr (VExpr (Operator (Suc n) Div [e, Number n x]), Suc (Suc n))
   \<and> py_binop B BTruediv (VNum x) (VExpr e) n = Inr (VExpr (Operator (Suc n) Div [Number n x, e]), Suc (Suc n))
   \<and> py_binop B BPow (VExpr e) (VNum x) n = Inr (VExpr (Operator (Suc n) Pow' [e, Number n x]), Suc (Suc n))
   \<and> py_binop B BPow (VNum x) (VExpr e) n = Inr (VExpr (Operator (Suc n) Pow' [Number n x, e]), Suc (Suc n))"
  by (simp add: py_binop_def alloc_defs unsupported_def lift_other_def Number_init_def Operator_init_def
      Expression_add_def Expression_radd_def Expression_sub_def Expression_rsub_def
      Expression_mul_def Expression_rmul_def Expression_truediv_def Expression_rtruediv_def
      Expression_pow_def Expression_rpow_def)

lemma precedence_spec_level: "precedence e = spec_level e"
  by (cases e rule: precedence.cases) simp_all

lemma max_list_gt: "d < max_list xs \<Longrightarrow> \<exists>x\<in>set xs. d < x"
  by (induction xs) (auto simp: max_def split: if_splits)

lemma collect_Inr: "list_all (\<lambda>r. \<not> isl r) rs \<Longrightarrow> collect rs = Inr (map projr rs)"
  by (induction rs rule: collect.induct) auto

lemma collect_Inl: "r \<in> set rs \<Longrightarrow> isl r \<Longrightarrow> \<exists>err. collect rs = Inl err \<and> Inl err \<in> set rs"
  by (induction rs rule: collect.induct) (auto split: sum.splits)

text \<open>\<^verbatim>\<open>str\<close> of an expression raises nothing but \<^verbatim>\<open>RecursionError\<close>.\<close>

lemma str_error: "Expression_str B depth e = Inl err \<Longrightarrow> err = RecursionError"
proof (induction B depth e arbitrary: err rule: Expression_str.induct)
  case (2 B depth i c os)
  let ?rs = "map (\<lambda>operand.
                case Expression_str B depth operand of
                  Inl err \<Rightarrow> Inl err
                | Inr s \<Rightarrow>
                    Inr (if precedence operand < precedence (Operator i c os)
                         then ''('' @ s @ '')''
                         else s)) os"
  from "2.prems" have c: "collect ?rs = Inl err"
    by (simp split: sum.splits)
  have "\<exists>r\<in>set ?rs. isl r"
  proof (rule ccontr)
    assume "\<not> (\<exists>r\<in>set ?rs. isl r)"
    then have "list_all (\<lambda>r. \<not> isl r) ?rs"
      by (simp add: list_all_iff)
    from collect_Inr[OF this] c show False by simp
  qed
  then obtain r where r: "r \<in> set ?rs" "isl r" by blast
  from collect_Inl[OF r] c have "Inl err \<in> set ?rs" by simp
  then obtain operand where o: "operand \<in> set os" "Expression_str B depth operand = Inl err"
    by (auto split: sum.splits)
  then show ?case using "2.IH" by blast
qed simp_all

text \<open>An expression nested more deeply than the recursion limit admits is not rendered.\<close>

lemma str_beyond_depth: "depth < height e \<Longrightarrow> Expression_str B depth e = Inl RecursionError"
proof (induction B depth e rule: Expression_str.induct)
  case (2 B depth i c os)
  let ?rs = "map (\<lambda>operand.
                case Expression_str B depth operand of
                  Inl err \<Rightarrow> Inl err
                | Inr s \<Rightarrow>
                    Inr (if precedence operand < precedence (Operator i c os)
                         then ''('' @ s @ '')''
                         else s)) os"
  from "2.prems" have "depth < max_list (map height os)" by simp
  then obtain operand where o: "operand \<in> set os" "depth < height operand"
    using max_list_gt by fastforce
  then have "Expression_str B depth operand = Inl RecursionError"
    using "2.IH" by blast
  then have "Inl RecursionError \<in> set ?rs"
    using o(1) by (force simp: image_iff)
  from collect_Inl[OF this] obtain err where c: "collect ?rs = Inl err"
    by auto
  then have "Expression_str B (Suc depth) (Operator i c os) = Inl err"
    by simp
  moreover from this have "err = RecursionError" by (rule str_error)
  ultimately show ?case by simp
qed simp_all

text \<open>Within the recursion limit the rendering is the specification's.\<close>

lemma str_within_depth:
  "binary e \<Longrightarrow> height e \<le> depth \<Longrightarrow> Expression_str B depth e = Inr (spec_render B e)"
proof (induction e arbitrary: depth)
  case (Operator i c os)
  then obtain l r where os: "os = [l, r]"
    by (cases os; cases "tl os") auto
  from Operator.prems(2) obtain k where k: "depth = Suc k" "height l \<le> k" "height r \<le> k"
    by (cases depth) (auto simp: os)
  have "Expression_str B k l = Inr (spec_render B l)" "Expression_str B k r = Inr (spec_render B r)"
    using Operator os k by simp_all
  then show ?case
    by (simp add: os k precedence_spec_level)
qed (case_tac depth; simp)+

lemma height_loop_sum: "height (loop_sum k) = Suc k"
  by (induction k) simp_all

lemma binary_loop_sum: "binary (loop_sum k)"
  by (induction k) simp_all

text \<open>
  C5. \<^verbatim>\<open>str\<close> of an expression whose nesting depth the interpreter's recursion limit
  admits is the infix string of the specification's rule (a child in parentheses exactly
  when its precedence level is strictly lower than its parent's); \<^verbatim>\<open>str\<close> of an expression
  nested more deeply raises \<^verbatim>\<open>RecursionError\<close>. The two renderings the specification gives
  hold whenever three nested calls are admitted.
\<close>

theorem render_parenthesises_lower_precedence:
  "(binary e \<and> height e \<le> depth \<longrightarrow> Expression_str B depth e = Inr (spec_render B e))
   \<and> (depth < height e \<longrightarrow> Expression_str B depth e = Inl RecursionError)
   \<and> Expression_str B (Suc (Suc (Suc k)))
         (Operator 4 Mul [Operator 2 Add [Symbol 0 ''x'', Symbol 1 ''y''], Symbol 3 ''z''])
       = Inr ''(x + y) * z''
   \<and> Expression_str B (Suc (Suc (Suc k)))
         (Operator 4 Add [Operator 2 Mul [Symbol 0 ''x'', Symbol 1 ''y''], Symbol 3 ''z''])
       = Inr ''x * y + z''"
  using str_within_depth [of e depth B] str_beyond_depth [of depth e B] by simp

theorem render_parenthesises_lower_precedence_witness:
  "binary (Operator 4 Sub [Symbol 0 ''a'', Operator 3 Sub [Symbol 1 ''b'', Symbol 2 ''c'']])
   \<and> height (Operator 4 Sub [Symbol 0 ''a'', Operator 3 Sub [Symbol 1 ''b'', Symbol 2 ''c'']]) \<le> 3
   \<and> Expression_str sample_builtins 3
         (Operator 4 Sub [Symbol 0 ''a'', Operator 3 Sub [Symbol 1 ''b'', Symbol 2 ''c'']])
       = Inr ''a - b - c''
   \<and> spec_render sample_builtins (Operator 4 Sub [Symbol 0 ''a'', Operator 3 Sub [Symbol 1 ''b'', Symbol 2 ''c'']])
       = ''a - b - c''
   \<and> 2 < height (Operator 4 Sub [Symbol 0 ''a'', Operator 3 Sub [Symbol 1 ''b'', Symbol 2 ''c'']])
   \<and> Expression_str sample_builtins 2
         (Operator 4 Sub [Symbol 0 ''a'', Operator 3 Sub [Symbol 1 ''b'', Symbol 2 ''c'']])
       = Inl RecursionError"
  using render_parenthesises_lower_precedence
    [of "Operator 4 Sub [Symbol 0 ''a'', Operator 3 Sub [Symbol 1 ''b'', Symbol 2 ''c'']]" 3 sample_builtins]
    render_parenthesises_lower_precedence
    [of "Operator 4 Sub [Symbol 0 ''a'', Operator 3 Sub [Symbol 1 ''b'', Symbol 2 ''c'']]" 2 sample_builtins]
  by simp

text \<open>
  The sum of a symbol and a thousand ones, built by a loop, is an expression of the
  arithmetic operators that \<^verbatim>\<open>str\<close> does not render under Python's default recursion limit
  of 1000: it raises \<^verbatim>\<open>RecursionError\<close>.
\<close>

theorem render_of_deep_sum_raises:
  "binary (loop_sum 1000)
   \<and> Expression_str sample_builtins 1000 (loop_sum 1000) = Inl RecursionError"
proof -
  have "(1000 :: nat) < height (loop_sum 1000)"
    unfolding height_loop_sum by simp
  then show ?thesis
    using binary_loop_sum str_beyond_depth by blast
qed

section \<open>Differentiation of single nodes\<close>

lemma postvisitor_terminal:
  assumes "operands e = []" "fn e [] kwargs s = Inr (r, s')"
  shows "postvisitor e fn kwargs s = ([(e, [], Inr r)], Inr (r, s'))"
  using assms
  by (simp add: postvisitor_def postvisitor_loop.simps[of _ _ "[e]"] postvisitor_loop.simps[of _ _ "[]"])

text \<open>
  C6. Differentiating a \<^verbatim>\<open>Number\<close> gives the float \<^verbatim>\<open>0.0\<close> for every variable, and
  differentiating \<^verbatim>\<open>Symbol(s)\<close> with respect to \<^verbatim>\<open>var\<close> gives \<^verbatim>\<open>1.0\<close> when \<^verbatim>\<open>s == var\<close> and \<^verbatim>\<open>0.0\<close>
  otherwise, both through \<^verbatim>\<open>postvisitor\<close> and when the rule is called directly.
\<close>

theorem differentiate_terminals:
  "snd (postvisitor (Number i v) (differentiate B) [''var'' \<mapsto> VStr var] n)
     = Inr (VNum (PyFloat (Finite 0)), n)
   \<and> snd (postvisitor (Symbol i s) (differentiate B) [''var'' \<mapsto> VStr var] n)
     = Inr (VNum (PyFloat (if s = var then Finite 1 else Finite 0)), n)
   \<and> differentiate B (Number i v) [] kwargs n = Inr (VNum (PyFloat (Finite 0)), n)
   \<and> differentiate B (Symbol i s) [] [''var'' \<mapsto> VStr var] n
     = Inr (VNum (PyFloat (if s = var then Finite 1 else Finite 0)), n)"
  by (simp add: postvisitor_terminal differentiate_Number_def differentiate_Symbol_def alloc_defs)

lemma mul_rule_cases:
  "differentiate_Mul B (Operator i Mul [a, b]) [VExpr da, VExpr db] kwargs n
     = Inr (VExpr (Operator (n + 2) Add [Operator n Mul [da, b], Operator (n + 1) Mul [db, a]]), n + 3)"
  "differentiate_Mul B (Operator i Mul [a, b]) [VNum x, VExpr db] kwargs n
     = Inr (VExpr (Operator (n + 3) Add
              [Operator (n + 1) Mul [Number n x, b], Operator (n + 2) Mul [db, a]]), n + 4)"
  "differentiate_Mul B (Operator i Mul [a, b]) [VExpr da, VNum y] kwargs n
     = Inr (VExpr (Operator (n + 3) Add
              [Operator n Mul [da, b], Operator (n + 2) Mul [Number (n + 1) y, a]]), n + 4)"
  "differentiate_Mul B (Operator i Mul [a, b]) [VNum x, VNum y] kwargs n
     = Inr (VExpr (Operator (n + 4) Add
              [Operator (n + 1) Mul [Number n x, b], Operator (n + 3) Mul [Number (n + 2) y, a]]), n + 5)"
  by (simp_all add: differentiate_Mul_def getitem_def py_binop_def alloc_defs unsupported_def
      lift_other_def Number_init_def Operator_init_def Expression_add_def Expression_mul_def
      Expression_rmul_def numeral_2_eq_2 numeral_3_eq_3 eval_nat_numeral)

lemma derivative_mul_xx:
  "snd (postvisitor (Operator 1 Mul [Symbol 0 ''x'', Symbol 0 ''x'']) (differentiate B) [''var'' \<mapsto> VStr ''x''] 2)
     = Inr (VExpr (Operator 6 Add
              [Operator 3 Mul [Number 2 (PyFloat (Finite 1)), Symbol 0 ''x''],
               Operator 5 Mul [Number 4 (PyFloat (Finite 1)), Symbol 0 ''x'']]), 7)"
  by (simp add: postvisitor_def postvisitor_loop.simps Let_def differentiate_Symbol_def alloc_defs
      mul_rule_cases)

text \<open>
  C7. On \<^verbatim>\<open>Mul(a, b)\<close> with the reduced children \<^verbatim>\<open>da\<close>, \<^verbatim>\<open>db\<close> the rule returns
  \<^verbatim>\<open>Add(Mul(da, b), Mul(db, a))\<close>, built from the operand objects \<^verbatim>\<open>a\<close> and \<^verbatim>\<open>b\<close> themselves,
  a numeric \<^verbatim>\<open>da\<close> or \<^verbatim>\<open>db\<close> being wrapped in a fresh \<^verbatim>\<open>Number\<close>. For \<^verbatim>\<open>x * x\<close> with one shared
  symbol the derivative by \<^verbatim>\<open>x\<close> prints as \<^verbatim>\<open>1.0 * x + 1.0 * x\<close>, given that Python prints the
  float one as \<^verbatim>\<open>1.0\<close> and that the recursion limit admits the three nested \<^verbatim>\<open>str\<close> calls
  of that expression.
\<close>

theorem product_rule:
  "differentiate B (Operator i Mul [a, b]) [VExpr da, VExpr db] kwargs n
     = Inr (VExpr (Operator (n + 2) Add [Operator n Mul [da, b], Operator (n + 1) Mul [db, a]]), n + 3)
   \<and> differentiate B (Operator i Mul [a, b]) [VNum x, VExpr db] kwargs n
     = Inr (VExpr (Operator (n + 3) Add
              [Operator (n + 1) Mul [Number n x, b], Operator (n + 2) Mul [db, a]]), n + 4)
   \<and> differentiate B (Operator i Mul [a, b]) [VExpr da, VNum y] kwargs n
     = Inr (VExpr (Operator (n + 3) Add
              [Operator n Mul [da, b], Operator (n + 2) Mul [Number (n + 1) y, a]]), n + 4)
   \<and> differentiate B (Operator i Mul [a, b]) [VNum x, VNum y] kwargs n
     = Inr (VExpr (Operator (n + 4) Add
              [Operator (n + 1) Mul [Number n x, b], Operator (n + 3) Mul [Number (n + 2) y, a]]), n + 5)
   \<and> snd (postvisitor (Operator 1 Mul [Symbol 0 ''x'', Symbol 0 ''x'']) (differentiate B)
            [''var'' \<mapsto> VStr ''x''] 2)
       = Inr (VExpr (Operator 6 Add
                [Operator 3 Mul [Number 2 (PyFloat (Finite 1)), Symbol 0 ''x''],
                 Operator 5 Mul [Number 4 (PyFloat (Finite 1)), Symbol 0 ''x'']]), 7)
   \<and> (str_number B (PyFloat (Finite 1)) = ''1.0'' \<longrightarrow>
        Expression_str B (Suc (Suc (Suc k))) (Operator 6 Add
                [Operator 3 Mul [Number 2 (PyFloat (Finite 1)), Symbol 0 ''x''],
                 Operator 5 Mul [Number 4 (PyFloat (Finite 1)), Symbol 0 ''x'']])
          = Inr ''1.0 * x + 1.0 * x'')"
  using derivative_mul_xx [of B] by (simp add: mul_rule_cases)

theorem product_rule_witness:
  "str_number sample_builtins (PyFloat (Finite 1)) = ''1.0''
   \<and> snd (postvisitor (Operator 1 Mul [Symbol 0 ''x'', Symbol 0 ''x'']) (differentiate sample_builtins)
            [''var'' \<mapsto> VStr ''x''] 2)
       = Inr (VExpr (Operator 6 Add
                [Operator 3 Mul [Number 2 (PyFloat (Finite 1)), Symbol 0 ''x''],
                 Operator 5 Mul [Number 4 (PyFloat (Finite 1)), Symbol 0 ''x'']]), 7)
   \<and> Expression_str sample_builtins (Suc (Suc (Suc 0))) (Operator 6 Add
                [Operator 3 Mul [Number 2 (PyFloat (Finite 1)), Symbol 0 ''x''],
                 Operator 5 Mul [Number 4 (PyFloat (Finite 1)), Symbol 0 ''x'']])
          = Inr ''1.0 * x + 1.0 * x''"
proof -
  have h: "str_number sample_builtins (PyFloat (Finite 1)) = ''1.0''"
    by (simp add: sample_builtins_def)
  show ?thesis
    using h product_rule [of sample_builtins _ _ _ _ _ _ _ _ _ 0] by simp
qed

section \<open>Sharing\<close>

text \<open>
  C1. The specification's sharing example, run on the code: for \<^verbatim>\<open>x = Symbol("x")\<close> and
  \<^verbatim>\<open>e = x * x\<close> the counting step function is called three times, twice on the one object
  \<^verbatim>\<open>x\<close> and once on \<^verbatim>\<open>e\<close>.
\<close>

theorem shared_operand_is_stepped_twice:
  "postvisitor (Operator 1 Mul [Symbol 0 ''x'', Symbol 0 ''x'']) counting_step () 0
     = ([(Symbol 0 ''x'', [], Inr ()), (Symbol 0 ''x'', [], Inr ()),
         (Operator 1 Mul [Symbol 0 ''x'', Symbol 0 ''x''], [(), ()], Inr ())], Inr ((), 3))"
  by (simp add: postvisitor_def postvisitor_loop.simps Let_def counting_step_def)

section \<open>The reduction loop preserves invariants\<close>

lemma lookups_complete:
  "filter (\<lambda>c. visited (ident c) = None) os = [] \<Longrightarrow> \<exists>args. lookups visited os = Inr args"
  by (induction os) (auto split: if_splits)

lemma lookups_Inr:
  "lookups visited os = Inr args \<Longrightarrow> map Some args = map (\<lambda>c. visited (ident c)) os"
  by (induction os arbitrary: args) (auto split: option.splits sum.splits)

lemma self_in_subexprs: "e \<in> set (subexprs e)"
  by (cases e) auto

lemma operands_in_subexprs: "c \<in> set (operands e) \<Longrightarrow> c \<in> set (subexprs e)"
  by (cases e) (auto intro: self_in_subexprs)

lemma subexprs_trans: "x \<in> set (subexprs e) \<Longrightarrow> set (subexprs x) \<subseteq> set (subexprs e)"
  by (induction e) auto

lemma subexprs_closed:
  "x \<in> set (subexprs e) \<Longrightarrow> c \<in> set (operands x) \<Longrightarrow> c \<in> set (subexprs e)"
  using subexprs_trans operands_in_subexprs by blast

lemma post_weaken:
  assumes "case x of Inl err \<Rightarrow> Q err | Inr (V, s') \<Rightarrow> P V s'"
      and "\<And>V s'. P V s' \<Longrightarrow> P' V s'"
  shows "case x of Inl err \<Rightarrow> Q err | Inr (V, s') \<Rightarrow> P' V s'"
  using assms by (auto split: sum.splits)

lemma postvisitor_loop_rule:
  assumes "\<And>x V args s. x \<in> N \<Longrightarrow> J V s \<Longrightarrow> lookups V (operands x) = Inr args \<Longrightarrow>
             (case fn x args kwargs s of Inl err \<Rightarrow> Q err | Inr (r, s') \<Rightarrow> J (V(ident x \<mapsto> r)) s')"
      and "\<And>x c. x \<in> N \<Longrightarrow> c \<in> set (operands x) \<Longrightarrow> c \<in> N"
      and "J visited s"
      and "set stack \<subseteq> N"
  shows "case snd (postvisitor_loop fn kwargs stack visited calls s) of
            Inl err \<Rightarrow> Q err
          | Inr (V, s') \<Rightarrow> J V s' \<and> ident ` set stack \<subseteq> dom V \<and> dom visited \<subseteq> dom V"
  using assms
proof (induction fn kwargs stack visited calls s rule: postvisitor_loop.induct)
  case (1 fn kwargs stack visited calls s)
  note step = "1.prems"(1) and closed = "1.prems"(2) and J = "1.prems"(3) and sub = "1.prems"(4)
  show ?case
  proof (cases "stack = []")
    case True
    then show ?thesis
      using J by (simp add: postvisitor_loop.simps)
  next
    case ne: False
    define e where "e = last stack"
    define uc where "uc = filter (\<lambda>o'. visited (ident o') = None) (operands e)"
    have e_in: "e \<in> set stack"
      using ne by (simp add: e_def)
    have st: "butlast stack @ [e] = stack"
      using ne by (simp add: e_def)
    show ?thesis
    proof (cases "uc = []")
      case False
      have eq: "postvisitor_loop fn kwargs stack visited calls s
                = postvisitor_loop fn kwargs (butlast stack @ [e] @ uc) visited calls s"
        using ne False
        by (subst postvisitor_loop.simps) (simp add: e_def uc_def Let_def)
      have "set uc \<subseteq> N"
        using closed[of e] e_in sub by (auto simp: uc_def)
      then have sub': "set (butlast stack @ [e] @ uc) \<subseteq> N"
        using sub in_set_butlastD[of _ stack] e_in by auto
      have ss: "set stack \<subseteq> set (butlast stack @ [e] @ uc)"
        using st by (metis append.assoc set_append sup_ge1)
      show ?thesis
        unfolding eq
      proof (rule post_weaken[OF "1.IH"(1)[OF ne e_def uc_def False _ _ J sub']], goal_cases stepg closedg post)
        case (stepg x V args s)
        then show ?case by (rule step)
      next
        case (closedg x c)
        then show ?case by (rule closed)
      next
        case (post V s')
        have "ident ` set stack \<subseteq> ident ` set (butlast stack @ [e] @ uc)"
          using ss by (rule image_mono)
        with post show ?case
          by (meson order_trans)
      qed
    next
      case True
      have "filter (\<lambda>c. visited (ident c) = None) (operands e) = []"
        using True by (simp only: uc_def)
      from lookups_complete[OF this]
      obtain args where args: "lookups visited (operands e) = Inr args" ..
      have unfold: "postvisitor_loop fn kwargs stack visited calls s
                    = (case fn e args kwargs s of
                         Inl err \<Rightarrow> (calls @ [(e, args, Inl err)], Inl err)
                       | Inr (r, s') \<Rightarrow>
                           postvisitor_loop fn kwargs (butlast stack) (visited(ident e \<mapsto> r))
                             (calls @ [(e, args, Inr r)]) s')"
        using ne True args
        by (subst postvisitor_loop.simps) (simp add: Let_def flip: e_def uc_def)
      show ?thesis
      proof (cases "fn e args kwargs s")
        case (Inl err)
        have "postvisitor_loop fn kwargs stack visited calls s = (calls @ [(e, args, Inl err)], Inl err)"
          unfolding unfold by (simp only: Inl sum.case)
        moreover have "e \<in> N"
          using e_in sub by blast
        from step[OF this J args] have "Q err"
          by (simp only: Inl sum.case)
        ultimately show ?thesis by simp
      next
        case (Inr p)
        obtain r s' where p: "p = (r, s')"
          by (cases p)
        have eq: "postvisitor_loop fn kwargs stack visited calls s
                  = postvisitor_loop fn kwargs (butlast stack) (visited(ident e \<mapsto> r))
                      (calls @ [(e, args, Inr r)]) s'"
          unfolding unfold by (simp only: Inr p sum.case prod.case)
        have "e \<in> N"
          using e_in sub by blast
        from step[OF this J args] have J': "J (visited(ident e \<mapsto> r)) s'"
          by (simp only: Inr p sum.case prod.case)
        have sub': "set (butlast stack) \<subseteq> N"
          using sub in_set_butlastD[of _ stack] by auto
        have ss: "set stack = insert e (set (butlast stack))"
          using st by (metis Un_insert_right append_Nil2 list.simps(15) set_append)
        have fn': "fn e args kwargs s = Inr (r, s')"
          using Inr p by simp
        show ?thesis
          unfolding eq
        proof (rule post_weaken[OF "1.IH"(2)[OF ne e_def uc_def _ args fn' refl _ _ J' sub']], goal_cases cond stepg closedg post)
          case cond
          then show ?case using True by (simp add: uc_def)
        next
          case (stepg x V args s)
          then show ?case by (rule step)
        next
          case (closedg x c)
          then show ?case by (rule closed)
        next
          case (post V s'')
          then have d: "dom (visited(ident e \<mapsto> r)) \<subseteq> dom V"
            by blast
          have "ident e \<in> dom (visited(ident e \<mapsto> r))"
            by simp
          moreover have "dom visited \<subseteq> dom (visited(ident e \<mapsto> r))"
            by (simp add: subset_insertI)
          ultimately have "ident e \<in> dom V" "dom visited \<subseteq> dom V"
            using d by blast+
          with post show ?case
            unfolding ss by simp
        qed
      qed
    qed
  qed
qed

lemma postvisitor_rule:
  assumes init: "J Map.empty s"
      and step: "\<And>x V args s. x \<in> set (subexprs expr) \<Longrightarrow> J V s \<Longrightarrow> lookups V (operands x) = Inr args \<Longrightarrow>
                   (case fn x args kwargs s of Inl err \<Rightarrow> Q err | Inr (r, s') \<Rightarrow> J (V(ident x \<mapsto> r)) s')"
  shows "case snd (postvisitor expr fn kwargs s) of
           Inl err \<Rightarrow> Q err
         | Inr (r, s') \<Rightarrow> \<exists>V. J V s' \<and> V (ident expr) = Some r"
proof -
  have "case snd (postvisitor_loop fn kwargs [expr] Map.empty [] s) of
            Inl err \<Rightarrow> Q err
          | Inr (V, s') \<Rightarrow> J V s' \<and> ident ` set [expr] \<subseteq> dom V \<and> dom (Map.empty :: nat \<rightharpoonup> 'a) \<subseteq> dom V"
  proof (rule postvisitor_loop_rule[where N = "set (subexprs expr)"], goal_cases step closed init stack)
    case (step x V args s)
    then show ?case by (rule assms(2))
  next
    case (closed x c)
    then show ?case by (rule subexprs_closed)
  next
    case init
    show ?case by (rule assms(1))
  next
    case stack
    show ?case by (simp add: self_in_subexprs)
  qed
  then show ?thesis
    by (auto simp: postvisitor_def split: sum.splits prod.splits option.splits)
qed

section \<open>Post-order\<close>

lemma cache_of_snoc_Inr: "cache_of (calls @ [(e, args, Inr r)]) = (cache_of calls)(ident e \<mapsto> r)"
  by (simp add: cache_of_def)

lemma post_order_snoc:
  assumes "post_order calls" "call_ok calls c"
  shows "post_order (calls @ [c])"
  unfolding post_order_def
proof (intro allI impI)
  fix i assume "i < length (calls @ [c])"
  then consider "i < length calls" | "i = length calls"
    by (auto simp: less_Suc_eq)
  then show "call_ok (take i (calls @ [c])) ((calls @ [c]) ! i)"
  proof cases
    case 1
    then show ?thesis
      using assms(1) by (simp add: post_order_def nth_append)
  next
    case 2
    then show ?thesis
      using assms(2) by simp
  qed
qed

lemma postvisitor_loop_post_order:
  assumes "visited = cache_of calls" "post_order calls"
  shows "post_order (fst (postvisitor_loop fn kwargs stack visited calls s))"
  using assms
proof (induction fn kwargs stack visited calls s rule: postvisitor_loop.induct)
  case (1 fn kwargs stack visited calls s)
  note vis = "1.prems"(1) and ok = "1.prems"(2)
  show ?case
  proof (cases "stack = []")
    case True
    then show ?thesis
      using ok by (simp add: postvisitor_loop.simps)
  next
    case ne: False
    define e where "e = last stack"
    define uc where "uc = filter (\<lambda>o'. visited (ident o') = None) (operands e)"
    show ?thesis
    proof (cases "uc = []")
      case False
      have eq: "postvisitor_loop fn kwargs stack visited calls s
                = postvisitor_loop fn kwargs (butlast stack @ [e] @ uc) visited calls s"
        using ne False
        by (subst postvisitor_loop.simps) (simp add: Let_def flip: e_def uc_def)
      show ?thesis
        unfolding eq by (rule "1.IH"(1)[OF ne e_def uc_def False vis ok])
    next
      case True
      have "filter (\<lambda>c. visited (ident c) = None) (operands e) = []"
        using True by (simp only: uc_def)
      from lookups_complete[OF this]
      obtain args where args: "lookups visited (operands e) = Inr args" ..
      have unfold: "postvisitor_loop fn kwargs stack visited calls s
                    = (case fn e args kwargs s of
                         Inl err \<Rightarrow> (calls @ [(e, args, Inl err)], Inl err)
                       | Inr (r, s') \<Rightarrow>
                           postvisitor_loop fn kwargs (butlast stack) (visited(ident e \<mapsto> r))
                             (calls @ [(e, args, Inr r)]) s')"
        using ne True args
        by (subst postvisitor_loop.simps) (simp add: Let_def flip: e_def uc_def)
      have call: "call_ok calls (e, args, res)" for res
        using lookups_Inr[OF args] by (simp add: vis)
      show ?thesis
      proof (cases "fn e args kwargs s")
        case (Inl err)
        show ?thesis
          unfolding unfold using post_order_snoc[OF ok call] by (simp add: Inl)
      next
        case (Inr p)
        obtain r s' where p: "p = (r, s')"
          by (cases p)
        have fn': "fn e args kwargs s = Inr (r, s')"
          using Inr p by simp
        have eq: "postvisitor_loop fn kwargs stack visited calls s
                  = postvisitor_loop fn kwargs (butlast stack) (visited(ident e \<mapsto> r))
                      (calls @ [(e, args, Inr r)]) s'"
          unfolding unfold by (simp only: fn' sum.case prod.case)
        have vis': "visited(ident e \<mapsto> r) = cache_of (calls @ [(e, args, Inr r)])"
          by (simp add: cache_of_snoc_Inr vis)
        show ?thesis
          unfolding eq
        proof (rule "1.IH"(2)[OF ne e_def uc_def _ args fn' refl vis' post_order_snoc[OF ok call]])
          show "\<not> uc \<noteq> []" using True by simp
        qed
      qed
    qed
  qed
qed

lemma fst_postvisitor:
  "fst (postvisitor expr fn kwargs s) = fst (postvisitor_loop fn kwargs [expr] Map.empty [] s)"
  by (simp add: postvisitor_def split: prod.splits sum.splits option.splits)

text \<open>
  C2. In every run of \<^verbatim>\<open>postvisitor\<close>, for every expression and every step function, each
  call of the step function comes after a call that returned a result for each operand
  of its node, and its arguments are those cached results in operand order. This holds
  for the calls of a run that ends in an exception as well.
\<close>

theorem postvisitor_post_order:
  "post_order (fst (postvisitor expr fn kwargs s))"
  unfolding fst_postvisitor
  by (rule postvisitor_loop_post_order) (simp_all add: cache_of_def post_order_def)

theorem postvisitor_post_order_witness:
  "fst (postvisitor (Operator 2 Add [Symbol 0 ''x'', Number 1 (PyInt 5)]) (differentiate sample_builtins)
          [''var'' \<mapsto> VStr ''x''] 3) ! 2
     = (Operator 2 Add [Symbol 0 ''x'', Number 1 (PyInt 5)],
        [VNum (PyFloat (Finite 1)), VNum (PyFloat (Finite 0))], Inr (VNum (PyFloat (Finite 1))))
   \<and> call_ok
        (take 2 (fst (postvisitor (Operator 2 Add [Symbol 0 ''x'', Number 1 (PyInt 5)])
           (differentiate sample_builtins) [''var'' \<mapsto> VStr ''x''] 3)))
        (Operator 2 Add [Symbol 0 ''x'', Number 1 (PyInt 5)],
         [VNum (PyFloat (Finite 1)), VNum (PyFloat (Finite 0))], Inr (VNum (PyFloat (Finite 1))))"
proof -
  let ?cs = "fst (postvisitor (Operator 2 Add [Symbol 0 ''x'', Number 1 (PyInt 5)])
               (differentiate sample_builtins) [''var'' \<mapsto> VStr ''x''] 3)"
  have cs: "?cs = [(Number 1 (PyInt 5), [], Inr (VNum (PyFloat (Finite 0)))),
                   (Symbol 0 ''x'', [], Inr (VNum (PyFloat (Finite 1)))),
                   (Operator 2 Add [Symbol 0 ''x'', Number 1 (PyInt 5)],
                    [VNum (PyFloat (Finite 1)), VNum (PyFloat (Finite 0))], Inr (VNum (PyFloat (Finite 1))))]"
    by (simp add: postvisitor_def postvisitor_loop.simps Let_def differentiate_Symbol_def
        differentiate_Number_def differentiate_Add_def getitem_def py_binop_def alloc_defs
        sample_builtins_def)
  have "2 < length ?cs"
    unfolding cs by simp
  then have "call_ok (take 2 ?cs) (?cs ! 2)"
    using postvisitor_post_order[of "Operator 2 Add [Symbol 0 ''x'', Number 1 (PyInt 5)]"
        "differentiate sample_builtins" "[''var'' \<mapsto> VStr ''x'']" 3]
    unfolding post_order_def by blast
  moreover have "?cs ! 2 = (Operator 2 Add [Symbol 0 ''x'', Number 1 (PyInt 5)],
        [VNum (PyFloat (Finite 1)), VNum (PyFloat (Finite 0))], Inr (VNum (PyFloat (Finite 1))))"
    unfolding cs by simp
  ultimately show ?thesis
    by (simp only: simp_thms)
qed

section \<open>The differentiation step on one node\<close>

lemma py_binop_expr_expr:
  "py_binop B c (VExpr a) (VExpr b) n = Inr (VExpr (Operator n (node_class c) [a, b]), Suc n)"
  by (cases c)
     (simp_all add: py_binop_def alloc_defs unsupported_def lift_other_def Operator_init_def
      Expression_add_def Expression_sub_def Expression_mul_def Expression_truediv_def Expression_pow_def)

lemma py_binop_expr_num:
  "py_binop B c (VExpr a) (VNum x) n
     = Inr (VExpr (Operator (Suc n) (node_class c) [a, Number n x]), Suc (Suc n))"
  by (cases c)
     (simp_all add: py_binop_def alloc_defs unsupported_def lift_other_def Operator_init_def Number_init_def
      Expression_add_def Expression_sub_def Expression_mul_def Expression_truediv_def Expression_pow_def)

lemma py_binop_num_expr:
  "py_binop B c (VNum x) (VExpr b) n
     = Inr (VExpr (Operator (Suc n) (node_class c) [Number n x, b]), Suc (Suc n))"
  by (cases c)
     (simp_all add: py_binop_def alloc_defs unsupported_def lift_other_def Operator_init_def Number_init_def
      Expression_radd_def Expression_rsub_def Expression_rmul_def Expression_rtruediv_def Expression_rpow_def)

lemma py_binop_float_float:
  "py_binop B BAdd (VNum (PyFloat x)) (VNum (PyFloat y)) n = Inr (VNum (PyFloat (float_add B x y)), n)"
  by (simp add: py_binop_def alloc_defs)

lemmas py_binop_simps = py_binop_expr_expr py_binop_expr_num py_binop_num_expr py_binop_float_float

lemma bind_Inr: "m n = Inr (x, n') \<Longrightarrow> bind m f n = f x n'"
  by (simp add: bind_def)

lemma getitem_simps:
  "getitem (x # xs) 0 n = Inr (x, n)"
  "getitem (x # y # xs) (Suc 0) n = Inr (y, n)"
  by (simp_all add: getitem_def ret_def)

lemma derivative_ok_cases:
  assumes "derivative_ok x r"
  obtains (float) f where "r = VNum (PyFloat f)" "add_only x"
        | (expr) d where "r = VExpr d" "\<not> add_only x" "binary d"
  using assms unfolding derivative_ok_def
  by (cases "add_only x"; cases r rule: is_float.cases) (auto split: if_splits)

lemma add_only_has_class: "add_only x \<Longrightarrow> k \<noteq> Add \<Longrightarrow> \<not> has_class k x"
  by (induction x) (auto simp: list_all_iff list_ex_iff)

lemma differentiate_node:
  assumes bin: "binary x"
      and var: "kwargs ''var'' = Some v"
      and args: "list_all2 derivative_ok (operands x) args"
  shows "case differentiate B x args kwargs n of
           Inl err \<Rightarrow> err = cannot_differentiate_Sub \<and> (\<exists>i os. x = Operator i Sub os)
         | Inr (r, n') \<Rightarrow> derivative_ok x r"
proof (cases x)
  case (Number i v)
  then show ?thesis
    by (simp add: differentiate_Number_def ret_def derivative_ok_def)
next
  case (Symbol i s)
  then show ?thesis
    using var by (simp add: differentiate_Symbol_def ret_def derivative_ok_def)
next
  case (Operator i c os)
  then obtain a b where os: "os = [a, b]"
    using bin by (cases os; cases "tl os") auto
  have bin_ab: "binary a" "binary b"
    using bin Operator os by simp_all
  obtain ra rb where ar: "args = [ra, rb]" and oka: "derivative_ok a ra" and okb: "derivative_ok b rb"
    using args Operator os by (auto simp: list_all2_Cons1)
  have nsa: "\<not> has_class Sub a" and nsb: "\<not> has_class Sub b"
    using oka okb by (simp_all add: derivative_ok_def)
  note ao = add_only_has_class[of a Div] add_only_has_class[of a Pow']
            add_only_has_class[of b Div] add_only_has_class[of b Pow']
  show ?thesis
  proof (cases c)
    case Sub
    then show ?thesis
      using Operator by (simp add: differentiate_default_def raise_def cannot_differentiate_Sub_def)
  next
    case Add
    from oka okb show ?thesis
    proof (cases rule: derivative_ok_cases[case_product derivative_ok_cases])
      case (float_float f g)
      then show ?thesis
        using Operator os Add ar nsa nsb ao
        by (simp add: differentiate_Add_def bind_Inr getitem_simps py_binop_simps derivative_ok_def)
    next
      case (float_expr f d)
      then show ?thesis
        using Operator os Add ar nsa nsb ao okb
        by (simp add: differentiate_Add_def bind_Inr getitem_simps py_binop_simps derivative_ok_def)
    next
      case (expr_float d g)
      then show ?thesis
        using Operator os Add ar nsa nsb ao oka
        by (simp add: differentiate_Add_def bind_Inr getitem_simps py_binop_simps derivative_ok_def)
    next
      case (expr_expr d d')
      then show ?thesis
        using Operator os Add ar nsa nsb ao oka okb
        by (simp add: differentiate_Add_def bind_Inr getitem_simps py_binop_simps derivative_ok_def)
    qed
  next
    case Mul
    from oka okb show ?thesis
    proof (cases rule: derivative_ok_cases[case_product derivative_ok_cases])
      case (float_float f g)
      then show ?thesis
        using Operator os Mul ar nsa nsb ao bin_ab
        by (simp add: differentiate_Mul_def bind_Inr getitem_simps py_binop_simps derivative_ok_def)
    next
      case (float_expr f d)
      then show ?thesis
        using Operator os Mul ar nsa nsb ao okb bin_ab
        by (simp add: differentiate_Mul_def bind_Inr getitem_simps py_binop_simps derivative_ok_def)
    next
      case (expr_float d g)
      then show ?thesis
        using Operator os Mul ar nsa nsb ao oka bin_ab
        by (simp add: differentiate_Mul_def bind_Inr getitem_simps py_binop_simps derivative_ok_def)
    next
      case (expr_expr d d')
      then show ?thesis
        using Operator os Mul ar nsa nsb ao oka okb bin_ab
        by (simp add: differentiate_Mul_def bind_Inr getitem_simps py_binop_simps derivative_ok_def)
    qed
  next
    case Div
    from oka okb show ?thesis
    proof (cases rule: derivative_ok_cases[case_product derivative_ok_cases])
      case (float_float f g)
      then show ?thesis
        using Operator os Div ar nsa nsb ao bin_ab
        by (simp add: differentiate_Div_def bind_Inr getitem_simps py_binop_simps derivative_ok_def)
    next
      case (float_expr f d)
      then show ?thesis
        using Operator os Div ar nsa nsb ao bin_ab
        by (simp add: differentiate_Div_def bind_Inr getitem_simps py_binop_simps derivative_ok_def)
    next
      case (expr_float d g)
      then show ?thesis
        using Operator os Div ar nsa nsb ao bin_ab
        by (simp add: differentiate_Div_def bind_Inr getitem_simps py_binop_simps derivative_ok_def)
    next
      case (expr_expr d d')
      then show ?thesis
        using Operator os Div ar nsa nsb ao bin_ab
        by (simp add: differentiate_Div_def bind_Inr getitem_simps py_binop_simps derivative_ok_def)
    qed
  next
    case Pow'
    from oka okb show ?thesis
    proof (cases rule: derivative_ok_cases[case_product derivative_ok_cases])
      case (float_float f g)
      then show ?thesis
        using Operator os Pow' ar nsa nsb ao bin_ab
        by (simp add: differentiate_Pow_def bind_Inr getitem_simps py_binop_simps derivative_ok_def)
    next
      case (float_expr f d)
      then show ?thesis
        using Operator os Pow' ar nsa nsb ao bin_ab
        by (simp add: differentiate_Pow_def bind_Inr getitem_simps py_binop_simps derivative_ok_def)
    next
      case (expr_float d g)
      then show ?thesis
        using Operator os Pow' ar nsa nsb ao bin_ab
        by (simp add: differentiate_Pow_def bind_Inr getitem_simps py_binop_simps derivative_ok_def)
    next
      case (expr_expr d d')
      then show ?thesis
        using Operator os Pow' ar nsa nsb ao bin_ab
        by (simp add: differentiate_Pow_def bind_Inr getitem_simps py_binop_simps derivative_ok_def)
    qed
  qed
qed

section \<open>Differentiation of whole expressions\<close>

lemma binary_subexprs: "binary e \<Longrightarrow> x \<in> set (subexprs e) \<Longrightarrow> binary x"
  by (induction e) (auto simp: list_all_iff)

lemma has_class_subexprs: "x \<in> set (subexprs e) \<Longrightarrow> has_class k x \<Longrightarrow> has_class k e"
  by (induction e) (auto simp: list_ex_iff)

lemma lookups_list_all2:
  assumes "lookups V os = Inr args"
      and "\<And>c r. c \<in> set os \<Longrightarrow> V (ident c) = Some r \<Longrightarrow> P c r"
  shows "list_all2 P os args"
  using assms
proof (induction os arbitrary: args)
  case Nil
  then show ?case by simp
next
  case (Cons c os)
  then show ?case
    by (auto split: option.splits sum.splits)
qed

lemma postvisitor_differentiate:
  assumes bin: "binary e" and wf: "wf_ids e" and var: "kwargs ''var'' = Some v"
  shows "case snd (postvisitor e (differentiate B) kwargs n) of
           Inl err \<Rightarrow> err = cannot_differentiate_Sub \<and> has_class Sub e
         | Inr (r, n') \<Rightarrow> derivative_ok e r"
proof -
  define J :: "(nat \<rightharpoonup> pyval) \<Rightarrow> nat \<Rightarrow> bool"
    where "J V m = (\<forall>x\<in>set (subexprs e). \<forall>r. V (ident x) = Some r \<longrightarrow> derivative_ok x r)" for V m
  have "case snd (postvisitor e (differentiate B) kwargs n) of
           Inl err \<Rightarrow> err = cannot_differentiate_Sub \<and> has_class Sub e
         | Inr (r, n') \<Rightarrow> \<exists>V. J V n' \<and> V (ident e) = Some r"
  proof (rule postvisitor_rule[where J = J], goal_cases init step)
    case init
    show ?case by (simp add: J_def)
  next
    case (step x V args m)
    have binx: "binary x"
      using bin step(1) by (rule binary_subexprs)
    have "list_all2 derivative_ok (operands x) args"
    proof (rule lookups_list_all2[OF step(3)])
      fix c r assume "c \<in> set (operands x)" "V (ident c) = Some r"
      moreover have "c \<in> set (subexprs e)"
        using step(1) \<open>c \<in> set (operands x)\<close> by (rule subexprs_closed)
      ultimately show "derivative_ok c r"
        using step(2) by (simp add: J_def)
    qed
    then have node: "case differentiate B x args kwargs m of
           Inl err \<Rightarrow> err = cannot_differentiate_Sub \<and> (\<exists>i os. x = Operator i Sub os)
         | Inr (r, n') \<Rightarrow> derivative_ok x r"
      using binx var by (rule differentiate_node[where kwargs = kwargs and v = v, rotated 2])
    show ?case
    proof (cases "differentiate B x args kwargs m")
      case (Inl err)
      then show ?thesis
        using node has_class_subexprs[OF step(1), of Sub]
        by auto
    next
      case (Inr p)
      obtain r m' where p: "p = (r, m')"
        by (cases p)
      have ok: "derivative_ok x r"
        using node Inr p
        by simp
      have "J (V(ident x \<mapsto> r)) m'"
        unfolding J_def
      proof (intro ballI allI impI)
        fix y r' assume y: "y \<in> set (subexprs e)" and l: "(V(ident x \<mapsto> r)) (ident y) = Some r'"
        show "derivative_ok y r'"
        proof (cases "ident y = ident x")
          case True
          then have "y = x"
            using wf y step(1) by (simp add: wf_ids_def)
          then show ?thesis
            using l ok by simp
        next
          case False
          then show ?thesis
            using l y step(2) by (simp add: J_def)
        qed
      qed
      then show ?thesis
        using Inr p by simp
    qed
  qed
  then show ?thesis
    by (auto simp: J_def self_in_subexprs split: sum.splits)
qed

text \<open>
  C8. Differentiating an expression that contains a \<^verbatim>\<open>Sub\<close> node raises the default rule's
  \<^verbatim>\<open>NotImplementedError\<close>, whose message names \<^verbatim>\<open>Sub\<close>. The expression is any object graph
  the arithmetic operators can build (two operands per operator node, identities that
  identify), and the variable is passed as the keyword \<^verbatim>\<open>var\<close>.
\<close>

theorem sub_is_not_differentiable:
  assumes "binary e" "wf_ids e" "kwargs ''var'' = Some v" "has_class Sub e"
  shows "snd (postvisitor e (differentiate B) kwargs n) = Inl (NotImplementedError ''Cannot differentiate Sub'')"
  using postvisitor_differentiate[where kwargs = kwargs and v = v, OF assms(1-3), of B n] assms(4)
  by (auto simp: derivative_ok_def cannot_differentiate_Sub_def split: sum.splits)

theorem sub_is_not_differentiable_witness:
  "binary (Operator 2 Sub [Symbol 0 ''x'', Number 1 (PyInt 1)])
   \<and> wf_ids (Operator 2 Sub [Symbol 0 ''x'', Number 1 (PyInt 1)])
   \<and> [''var'' \<mapsto> VStr ''x''] ''var'' = Some (VStr ''x'')
   \<and> has_class Sub (Operator 2 Sub [Symbol 0 ''x'', Number 1 (PyInt 1)])
   \<and> snd (postvisitor (Operator 2 Sub [Symbol 0 ''x'', Number 1 (PyInt 1)]) (differentiate sample_builtins)
            [''var'' \<mapsto> VStr ''x''] 3)
       = Inl (NotImplementedError ''Cannot differentiate Sub'')"
proof -
  have h: "binary (Operator 2 Sub [Symbol 0 ''x'', Number 1 (PyInt 1)])"
          "wf_ids (Operator 2 Sub [Symbol 0 ''x'', Number 1 (PyInt 1)])"
          "[''var'' \<mapsto> VStr ''x''] ''var'' = Some (VStr ''x'')"
          "has_class Sub (Operator 2 Sub [Symbol 0 ''x'', Number 1 (PyInt 1)])"
    by (simp_all add: wf_ids_def)
  show ?thesis
    using h sub_is_not_differentiable[where kwargs = "[''var'' \<mapsto> VStr ''x'']" and v = "VStr ''x''", OF h, of sample_builtins 3]
    by (simp only: simp_thms)
qed

text \<open>
  C9, as the code has it. When differentiation succeeds, the result is a plain float
  exactly when the input consists of \<^verbatim>\<open>Add\<close> nodes and terminals only, and for a bare
  terminal that float is \<^verbatim>\<open>0.0\<close> or \<^verbatim>\<open>1.0\<close>; for every other input the result is an
  expression object.
\<close>

theorem derivative_is_float_iff_add_only:
  assumes "binary e" "wf_ids e" "kwargs ''var'' = Some v"
      and "snd (postvisitor e (differentiate B) kwargs n) = Inr (r, n')"
  shows "(add_only e \<longrightarrow> (\<exists>f. r = VNum (PyFloat f)))
         \<and> (\<not> add_only e \<longrightarrow> (\<exists>d. r = VExpr d))
         \<and> (operands e = [] \<longrightarrow> r = VNum (PyFloat (Finite 0)) \<or> r = VNum (PyFloat (Finite 1)))"
proof -
  have "derivative_ok e r"
    using postvisitor_differentiate[where kwargs = kwargs and v = v, OF assms(1-3), of B n] assms(4) by simp
  then have 1: "(add_only e \<longrightarrow> (\<exists>f. r = VNum (PyFloat f))) \<and> (\<not> add_only e \<longrightarrow> (\<exists>d. r = VExpr d))"
    by (cases rule: derivative_ok_cases) simp_all
  have 2: "r = VNum (PyFloat (Finite 0)) \<or> r = VNum (PyFloat (Finite 1))" if t: "operands e = []"
  proof -
    obtain r0 where d: "differentiate B e [] kwargs n = Inr (r0, n)"
      and r0: "r0 = VNum (PyFloat (Finite 0)) \<or> r0 = VNum (PyFloat (Finite 1))"
      using t assms(1,3)
      by (cases e) (auto simp: differentiate_Number_def differentiate_Symbol_def ret_def)
    show ?thesis
      using postvisitor_terminal[where fn = "differentiate B" and kwargs = kwargs and s = n, OF t d] assms(4) r0 by simp
  qed
  show ?thesis
    using 1 2 by blast
qed

text \<open>
  C9 as stated fails: \<^verbatim>\<open>Number(3) + Number(5)\<close> is not a bare terminal, and its derivative is
  the plain float \<^verbatim>\<open>0.0 + 0.0\<close>, not an expression.
\<close>

theorem derivative_of_sum_of_terminals_is_float:
  "snd (postvisitor (Operator 2 Add [Number 0 (PyInt 3), Number 1 (PyInt 5)]) (differentiate sample_builtins)
          [''var'' \<mapsto> VStr ''x''] 3)
     = Inr (VNum (PyFloat (Finite 0)), 3)"
  by (simp add: postvisitor_def postvisitor_loop.simps Let_def differentiate_Number_def
      differentiate_Add_def getitem_def py_binop_def alloc_defs sample_builtins_def)

theorem derivative_is_float_iff_add_only_witness:
  "binary (Operator 2 Add [Number 0 (PyInt 3), Number 1 (PyInt 5)])
   \<and> wf_ids (Operator 2 Add [Number 0 (PyInt 3), Number 1 (PyInt 5)])
   \<and> [''var'' \<mapsto> VStr ''x''] ''var'' = Some (VStr ''x'')
   \<and> snd (postvisitor (Operator 2 Add [Number 0 (PyInt 3), Number 1 (PyInt 5)]) (differentiate sample_builtins)
            [''var'' \<mapsto> VStr ''x''] 3) = Inr (VNum (PyFloat (Finite 0)), 3)
   \<and> add_only (Operator 2 Add [Number 0 (PyInt 3), Number 1 (PyInt 5)])
   \<and> (\<exists>f. VNum (PyFloat (Finite 0)) = VNum (PyFloat f))"
proof -
  have h: "binary (Operator 2 Add [Number 0 (PyInt 3), Number 1 (PyInt 5)])"
          "wf_ids (Operator 2 Add [Number 0 (PyInt 3), Number 1 (PyInt 5)])"
          "[''var'' \<mapsto> VStr ''x''] ''var'' = Some (VStr ''x'')"
    by (simp_all add: wf_ids_def)
  have run: "snd (postvisitor (Operator 2 Add [Number 0 (PyInt 3), Number 1 (PyInt 5)]) (differentiate sample_builtins)
            [''var'' \<mapsto> VStr ''x''] 3) = Inr (VNum (PyFloat (Finite 0)), 3)"
    by (simp add: postvisitor_def postvisitor_loop.simps Let_def differentiate_Number_def
      differentiate_Add_def getitem_def py_binop_def alloc_defs sample_builtins_def)
  have a: "add_only (Operator 2 Add [Number 0 (PyInt 3), Number 1 (PyInt 5)])"
    by simp
  from derivative_is_float_iff_add_only[where kwargs = "[''var'' \<mapsto> VStr ''x'']" and v = "VStr ''x''", OF h run] a
  have "\<exists>f. VNum (PyFloat (Finite 0)) = VNum (PyFloat f)"
    by blast
  then show ?thesis
    using h run a by (simp only: simp_thms)
qed

section \<open>Differentiating a derivative\<close>

lemma known_insert:
  assumes "known S n" "set (operands e) \<subseteq> S" "ident e = n"
  shows "known (insert e S) (Suc n)"
proof -
  have inj: "\<And>x y. x \<in> S \<Longrightarrow> y \<in> S \<Longrightarrow> ident x = ident y \<Longrightarrow> x = y"
    and lt: "\<And>x. x \<in> S \<Longrightarrow> ident x < n"
    and cl: "\<And>x. x \<in> S \<Longrightarrow> set (operands x) \<subseteq> S"
    using assms(1) unfolding known_def by blast+
  have 1: "x = y" if "x \<in> insert e S" "y \<in> insert e S" "ident x = ident y" for x y
  proof (cases "x = e")
    case True
    show ?thesis
    proof (cases "y = e")
      case False
      then have "ident y < n" using that(2) lt by blast
      then show ?thesis using that(3) True assms(3) by simp
    qed (simp add: True)
  next
    case False
    then have xs: "x \<in> S" using that(1) by blast
    show ?thesis
    proof (cases "y = e")
      case True
      have "ident x < n" using xs lt by blast
      then show ?thesis using that(3) True assms(3) by simp
    next
      case False
      then have "y \<in> S" using that(2) by blast
      then show ?thesis using xs that(3) inj by blast
    qed
  qed
  have 2: "ident x < Suc n" if "x \<in> insert e S" for x
  proof (cases "x = e")
    case True
    then show ?thesis using assms(3) by simp
  next
    case False
    then have "ident x < n" using that lt by blast
    then show ?thesis by simp
  qed
  have 3: "set (operands x) \<subseteq> insert e S" if "x \<in> insert e S" for x
  proof (cases "x = e")
    case True
    then show ?thesis using assms(2) by blast
  next
    case False
    then have "set (operands x) \<subseteq> S" using that cl by blast
    then show ?thesis by blast
  qed
  show ?thesis
    unfolding known_def using 1 2 3 by blast
qed

lemma operand_in_mono: "operand_in S a \<Longrightarrow> S \<subseteq> S' \<Longrightarrow> operand_in S' a"
  by (cases a) auto

lemma py_binop_yields:
  assumes k: "known S n" and a: "operand_in S a" and b: "operand_in S b"
      and e: "isinstance_Expression a \<or> isinstance_Expression b"
  shows "yields_expr S n (py_binop B c a b)"
proof -
  consider (ee) ea eb where "a = VExpr ea" "b = VExpr eb"
    | (en) ea x where "a = VExpr ea" "b = VNum x"
    | (ne) x eb where "a = VNum x" "b = VExpr eb"
    using a b e by (cases a; cases b) simp_all
  then show ?thesis
  proof cases
    case ee
    let ?r = "Operator n (node_class c) [ea, eb]"
    have "set (operands ?r) \<subseteq> S"
      using a b ee by simp
    then have "known (insert ?r S) (Suc n)"
      by (rule known_insert[OF k]) simp
    moreover have "S \<subseteq> insert ?r S" "?r \<in> insert ?r S"
      by blast+
    ultimately show ?thesis
      unfolding yields_expr_def ee py_binop_expr_expr by blast
  next
    case en
    let ?num = "Number n x"
    let ?r = "Operator (Suc n) (node_class c) [ea, ?num]"
    have kn: "known (insert ?num S) (Suc n)"
      by (rule known_insert[OF k]) simp_all
    have "set (operands ?r) \<subseteq> insert ?num S"
      using a en by simp
    then have "known (insert ?r (insert ?num S)) (Suc (Suc n))"
      by (rule known_insert[OF kn]) simp
    moreover have "S \<subseteq> insert ?r (insert ?num S)" "?r \<in> insert ?r (insert ?num S)"
      by blast+
    ultimately show ?thesis
      unfolding yields_expr_def en py_binop_expr_num by blast
  next
    case ne
    let ?num = "Number n x"
    let ?r = "Operator (Suc n) (node_class c) [?num, eb]"
    have kn: "known (insert ?num S) (Suc n)"
      by (rule known_insert[OF k]) simp_all
    have "set (operands ?r) \<subseteq> insert ?num S"
      using b ne by simp
    then have "known (insert ?r (insert ?num S)) (Suc (Suc n))"
      by (rule known_insert[OF kn]) simp
    moreover have "S \<subseteq> insert ?r (insert ?num S)" "?r \<in> insert ?r (insert ?num S)"
      by blast+
    ultimately show ?thesis
      unfolding yields_expr_def ne py_binop_num_expr by blast
  qed
qed

lemma yields_bind:
  assumes "yields_expr S n m"
      and "\<And>e S' n'. S \<subseteq> S' \<Longrightarrow> known S' n' \<Longrightarrow> e \<in> S' \<Longrightarrow> yields_expr S' n' (f (VExpr e))"
  shows "yields_expr S n (bind m f)"
proof -
  from assms(1) obtain e n' S' where m: "m n = Inr (VExpr e, n')" and s: "S \<subseteq> S'"
    and k: "known S' n'" and e: "e \<in> S'"
    unfolding yields_expr_def by blast
  from assms(2)[OF s k e] obtain e2 n2 S2 where f: "f (VExpr e) n' = Inr (VExpr e2, n2)"
    and s2: "S' \<subseteq> S2" and k2: "known S2 n2" and e2: "e2 \<in> S2"
    unfolding yields_expr_def by blast
  have "bind m f n = Inr (VExpr e2, n2)"
    using m f by (simp add: bind_def)
  moreover have "S \<subseteq> S2"
    using s s2 by blast
  ultimately show ?thesis
    unfolding yields_expr_def using k2 e2 by blast
qed

lemma bind_getitem:
  "bind (getitem (x # xs) 0) f = f x"
  "bind (getitem (x # y # xs) (Suc 0)) f = f y"
  by (rule ext, simp add: bind_def getitem_def ret_def)+

lemma differentiate_Mul_yields:
  assumes k: "known S n" and a: "a \<in> S" and b: "b \<in> S"
      and ra: "operand_in S ra" and rb: "operand_in S rb"
  shows "yields_expr S n (differentiate_Mul B (Operator i c [a, b]) [ra, rb] kwargs)"
proof -
  have "yields_expr S n
          (bind (py_binop B BMul ra (VExpr b)) (\<lambda>t1.
           bind (py_binop B BMul rb (VExpr a)) (\<lambda>t2.
           py_binop B BAdd t1 t2)))"
  proof (rule yields_bind)
    show "yields_expr S n (py_binop B BMul ra (VExpr b))"
      using k ra b by (intro py_binop_yields) simp_all
  next
    fix t1 S1 n1 assume s1: "S \<subseteq> S1" and k1: "known S1 n1" and t1: "t1 \<in> S1"
    show "yields_expr S1 n1 (bind (py_binop B BMul rb (VExpr a)) (\<lambda>t2. py_binop B BAdd (VExpr t1) t2))"
    proof (rule yields_bind)
      show "yields_expr S1 n1 (py_binop B BMul rb (VExpr a))"
        using k1 operand_in_mono[OF rb s1] a s1 by (intro py_binop_yields) auto
    next
      fix t2 S2 n2 assume s2: "S1 \<subseteq> S2" and k2: "known S2 n2" and t2: "t2 \<in> S2"
      show "yields_expr S2 n2 (py_binop B BAdd (VExpr t1) (VExpr t2))"
        using k2 t1 t2 s2 by (intro py_binop_yields) auto
    qed
  qed
  then show ?thesis
    by (simp add: differentiate_Mul_def bind_getitem)
qed

lemma differentiate_Div_yields:
  assumes k: "known S n" and a: "a \<in> S" and b: "b \<in> S"
      and ra: "operand_in S ra" and rb: "operand_in S rb"
  shows "yields_expr S n (differentiate_Div B (Operator i c [a, b]) [ra, rb] kwargs)"
proof -
  have "yields_expr S n
          (bind (py_binop B BMul ra (VExpr b)) (\<lambda>t1.
           bind (py_binop B BMul (VExpr a) rb) (\<lambda>t2.
           bind (py_binop B BSub t1 t2) (\<lambda>t3.
           bind (py_binop B BPow (VExpr b) (VNum (PyInt 2))) (\<lambda>t4.
           py_binop B BTruediv t3 t4)))))"
  proof (rule yields_bind)
    show "yields_expr S n (py_binop B BMul ra (VExpr b))"
      using k ra b by (intro py_binop_yields) simp_all
  next
    fix t1 S1 n1 assume s1: "S \<subseteq> S1" and k1: "known S1 n1" and t1: "t1 \<in> S1"
    show "yields_expr S1 n1
            (bind (py_binop B BMul (VExpr a) rb) (\<lambda>t2.
             bind (py_binop B BSub (VExpr t1) t2) (\<lambda>t3.
             bind (py_binop B BPow (VExpr b) (VNum (PyInt 2))) (\<lambda>t4.
             py_binop B BTruediv t3 t4))))"
    proof (rule yields_bind)
      show "yields_expr S1 n1 (py_binop B BMul (VExpr a) rb)"
        using k1 operand_in_mono[OF rb s1] a s1 by (intro py_binop_yields) auto
    next
      fix t2 S2 n2 assume s2: "S1 \<subseteq> S2" and k2: "known S2 n2" and t2: "t2 \<in> S2"
      show "yields_expr S2 n2
              (bind (py_binop B BSub (VExpr t1) (VExpr t2)) (\<lambda>t3.
               bind (py_binop B BPow (VExpr b) (VNum (PyInt 2))) (\<lambda>t4.
               py_binop B BTruediv t3 t4)))"
      proof (rule yields_bind)
        show "yields_expr S2 n2 (py_binop B BSub (VExpr t1) (VExpr t2))"
          using k2 t1 t2 s2 by (intro py_binop_yields) auto
      next
        fix t3 S3 n3 assume s3: "S2 \<subseteq> S3" and k3: "known S3 n3" and t3: "t3 \<in> S3"
        show "yields_expr S3 n3
                (bind (py_binop B BPow (VExpr b) (VNum (PyInt 2))) (\<lambda>t4.
                 py_binop B BTruediv (VExpr t3) t4))"
        proof (rule yields_bind)
          show "yields_expr S3 n3 (py_binop B BPow (VExpr b) (VNum (PyInt 2)))"
            using k3 b s1 s2 s3 by (intro py_binop_yields) auto
        next
          fix t4 S4 n4 assume s4: "S3 \<subseteq> S4" and k4: "known S4 n4" and t4: "t4 \<in> S4"
          show "yields_expr S4 n4 (py_binop B BTruediv (VExpr t3) (VExpr t4))"
            using k4 t3 t4 s4 by (intro py_binop_yields) auto
        qed
      qed
    qed
  qed
  then show ?thesis
    by (simp add: differentiate_Div_def bind_getitem)
qed

lemma differentiate_Pow_yields:
  assumes k: "known S n" and a: "a \<in> S" and b: "b \<in> S"
      and ra: "operand_in S ra" and rb: "operand_in S rb"
  shows "yields_expr S n (differentiate_Pow B (Operator i c [a, b]) [ra, rb] kwargs)"
proof -
  have "yields_expr S n
          (bind (py_binop B BMul ra (VExpr b)) (\<lambda>t1.
           bind (py_binop B BSub (VExpr b) (VNum (PyInt 1))) (\<lambda>t2.
           bind (py_binop B BPow (VExpr a) t2) (\<lambda>t3.
           py_binop B BMul t1 t3))))"
  proof (rule yields_bind)
    show "yields_expr S n (py_binop B BMul ra (VExpr b))"
      using k ra b by (intro py_binop_yields) simp_all
  next
    fix t1 S1 n1 assume s1: "S \<subseteq> S1" and k1: "known S1 n1" and t1: "t1 \<in> S1"
    show "yields_expr S1 n1
            (bind (py_binop B BSub (VExpr b) (VNum (PyInt 1))) (\<lambda>t2.
             bind (py_binop B BPow (VExpr a) t2) (\<lambda>t3.
             py_binop B BMul (VExpr t1) t3)))"
    proof (rule yields_bind)
      show "yields_expr S1 n1 (py_binop B BSub (VExpr b) (VNum (PyInt 1)))"
        using k1 b s1 by (intro py_binop_yields) auto
    next
      fix t2 S2 n2 assume s2: "S1 \<subseteq> S2" and k2: "known S2 n2" and t2: "t2 \<in> S2"
      show "yields_expr S2 n2
              (bind (py_binop B BPow (VExpr a) (VExpr t2)) (\<lambda>t3.
               py_binop B BMul (VExpr t1) t3))"
      proof (rule yields_bind)
        show "yields_expr S2 n2 (py_binop B BPow (VExpr a) (VExpr t2))"
          using k2 a t2 s1 s2 by (intro py_binop_yields) auto
      next
        fix t3 S3 n3 assume s3: "S2 \<subseteq> S3" and k3: "known S3 n3" and t3: "t3 \<in> S3"
        show "yields_expr S3 n3 (py_binop B BMul (VExpr t1) (VExpr t3))"
          using k3 t1 t3 s2 s3 by (intro py_binop_yields) auto
      qed
    qed
  qed
  then show ?thesis
    by (simp add: differentiate_Pow_def bind_getitem)
qed


lemma yields_exprD:
  assumes "yields_expr S n m" "m n = Inr (r, n')"
  shows "\<exists>S'. S \<subseteq> S' \<and> known S' n' \<and> operand_in S' r"
  using assms unfolding yields_expr_def by auto

lemma differentiate_node_known:
  assumes k: "known S n" and x: "x \<in> S" and bin: "binary x"
      and args: "list_all2 (\<lambda>c r. derivative_ok c r \<and> operand_in S r) (operands x) args"
      and run: "differentiate B x args kwargs n = Inr (r, n')"
  shows "\<exists>S'. S \<subseteq> S' \<and> known S' n' \<and> operand_in S' r"
proof (cases x)
  case (Number i v)
  then have "r = VNum (PyFloat (Finite 0))" "n' = n"
    using run by (simp_all add: differentiate_Number_def ret_def)
  then show ?thesis
    using k by auto
next
  case (Symbol i s)
  then obtain f where "r = VNum (PyFloat f)" "n' = n"
    using run by (auto simp: differentiate_Symbol_def ret_def raise_def split: option.splits)
  then show ?thesis
    using k by auto
next
  case (Operator i c os)
  then obtain a b where os: "os = [a, b]"
    using bin by (cases os; cases "tl os") auto
  have "set (operands x) \<subseteq> S"
    using k x unfolding known_def by blast
  then have a: "a \<in> S" and b: "b \<in> S"
    using Operator os by simp_all
  obtain ra rb where ar: "args = [ra, rb]"
    and oka: "derivative_ok a ra" and okb: "derivative_ok b rb"
    and ina: "operand_in S ra" and inb: "operand_in S rb"
    using args Operator os by (auto simp: list_all2_Cons1)
  show ?thesis
  proof (cases c)
    case Sub
    then show ?thesis
      using run Operator by (simp add: differentiate_default_def raise_def)
  next
    case Mul
    show ?thesis
      using yields_exprD[OF differentiate_Mul_yields[OF k a b ina inb]] run
      unfolding Operator os ar Mul by simp
  next
    case Div
    show ?thesis
      using yields_exprD[OF differentiate_Div_yields[OF k a b ina inb]] run
      unfolding Operator os ar Div by simp
  next
    case Pow'
    show ?thesis
      using yields_exprD[OF differentiate_Pow_yields[OF k a b ina inb]] run
      unfolding Operator os ar Pow' by simp
  next
    case Add
    have run': "py_binop B BAdd ra rb n = Inr (r, n')"
      using run unfolding Operator os ar Add
      by (simp add: differentiate_Add_def bind_getitem)
    show ?thesis
    proof (cases "isinstance_Expression ra \<or> isinstance_Expression rb")
      case True
      show ?thesis
        using yields_exprD[OF py_binop_yields[OF k ina inb True] run'] .
    next
      case False
      then obtain f g where "ra = VNum (PyFloat f)" "rb = VNum (PyFloat g)"
        using oka okb by (auto elim!: derivative_ok_cases)
      then have "r = VNum (PyFloat (float_add B f g))" "n' = n"
        using run' by (simp_all add: py_binop_float_float)
      then show ?thesis
        using k by auto
    qed
  qed
qed

lemma known_subexprs: "known S n \<Longrightarrow> d \<in> S \<Longrightarrow> set (subexprs d) \<subseteq> S"
proof (induction d)
  case (Operator i c os)
  have "set os \<subseteq> S"
    using Operator.prems unfolding known_def by fastforce
  then show ?case
    using Operator by auto
qed simp_all

lemma known_wf_ids:
  assumes "known S n" "d \<in> S"
  shows "wf_ids d"
  using known_subexprs[OF assms] assms(1) unfolding wf_ids_def known_def by blast

lemma postvisitor_differentiate_known:
  assumes bin: "binary e" and wf: "wf_ids e" and fr: "fresh n e" and var: "kwargs ''var'' = Some v"
      and run: "snd (postvisitor e (differentiate B) kwargs n) = Inr (r, n')"
  shows "\<exists>S. known S n' \<and> operand_in S r"
proof -
  define J :: "(nat \<rightharpoonup> pyval) \<Rightarrow> nat \<Rightarrow> bool"
    where "J V m = (\<exists>S. known S m \<and> set (subexprs e) \<subseteq> S
                     \<and> (\<forall>x\<in>set (subexprs e). \<forall>r. V (ident x) = Some r \<longrightarrow>
                           derivative_ok x r \<and> operand_in S r))" for V m
  have "case snd (postvisitor e (differentiate B) kwargs n) of
           Inl err \<Rightarrow> True
         | Inr (r, n') \<Rightarrow> \<exists>V. J V n' \<and> V (ident e) = Some r"
  proof (rule postvisitor_rule[where J = J], goal_cases init step)
    case init
    have "known (set (subexprs e)) n"
      unfolding known_def
      using wf fr subexprs_closed[of _ e]
      by (auto simp: wf_ids_def fresh_def)
    then show ?case
      unfolding J_def by auto
  next
    case (step x V args m)
    from step(2) obtain S where k: "known S m" and sub: "set (subexprs e) \<subseteq> S"
      and inv: "\<And>y r. y \<in> set (subexprs e) \<Longrightarrow> V (ident y) = Some r \<Longrightarrow>
                  derivative_ok y r \<and> operand_in S r"
      unfolding J_def by blast
    have binx: "binary x"
      using bin step(1) by (rule binary_subexprs)
    have xs: "x \<in> S"
      using step(1) sub by blast
    have la: "list_all2 (\<lambda>c r. derivative_ok c r \<and> operand_in S r) (operands x) args"
    proof (rule lookups_list_all2[OF step(3)])
      fix c r assume c: "c \<in> set (operands x)" and "V (ident c) = Some r"
      moreover have "c \<in> set (subexprs e)"
        using step(1) c by (rule subexprs_closed)
      ultimately show "derivative_ok c r \<and> operand_in S r"
        using inv by blast
    qed
    then have la': "list_all2 derivative_ok (operands x) args"
      by (rule list_all2_mono) simp
    have node: "case differentiate B x args kwargs m of
           Inl err \<Rightarrow> err = cannot_differentiate_Sub \<and> (\<exists>i os. x = Operator i Sub os)
         | Inr (r, n') \<Rightarrow> derivative_ok x r"
      using la' binx var by (rule differentiate_node[where kwargs = kwargs and v = v, rotated 2])
    show ?case
    proof (cases "differentiate B x args kwargs m")
      case (Inl err)
      then show ?thesis by simp
    next
      case (Inr p)
      obtain r m' where p: "p = (r, m')"
        by (cases p)
      have run: "differentiate B x args kwargs m = Inr (r, m')"
        using Inr p by simp
      have ok: "derivative_ok x r"
        using node run by simp
      from differentiate_node_known[OF k xs binx la run]
      obtain S' where s': "S \<subseteq> S'" and k': "known S' m'" and r: "operand_in S' r"
        by blast
      have "J (V(ident x \<mapsto> r)) m'"
        unfolding J_def
      proof (intro exI[of _ S'] conjI ballI allI impI)
        show "known S' m'" by (rule k')
        show "set (subexprs e) \<subseteq> S'" using sub s' by blast
      next
        fix y r' assume y: "y \<in> set (subexprs e)" and l: "(V(ident x \<mapsto> r)) (ident y) = Some r'"
        have "derivative_ok y r' \<and> operand_in S' r'"
        proof (cases "ident y = ident x")
          case True
          then have "y = x"
            using wf y step(1) by (simp add: wf_ids_def)
          then show ?thesis
            using l ok r by simp
        next
          case False
          then have "V (ident y) = Some r'"
            using l by simp
          then show ?thesis
            using inv[OF y] operand_in_mono[OF _ s'] by blast
        qed
        then show "derivative_ok y r'" "operand_in S' r'"
          by blast+
      qed
      then show ?thesis
        using Inr p by simp
    qed
  qed
  then obtain V where "J V n'" "V (ident e) = Some r"
    using run by auto
  then show ?thesis
    unfolding J_def using self_in_subexprs[of e] by blast
qed

lemma differentiation_succeeds_without_sub:
  assumes "binary e" "wf_ids e" "kwargs ''var'' = Some v" "\<not> has_class Sub e"
  shows "\<exists>r n'. snd (postvisitor e (differentiate B) kwargs n) = Inr (r, n')"
  using postvisitor_differentiate[where kwargs = kwargs and v = v, OF assms(1-3), of B n] assms(4)
  by (cases "snd (postvisitor e (differentiate B) kwargs n)") auto

text \<open>The quotient rule on the four kinds of reduced children.\<close>

lemma div_rule_cases:
  "differentiate_Div B (Operator i Div [a, b]) [VExpr da, VExpr db] kwargs n
     = Inr (VExpr (Operator (n + 5) Div
              [Operator (n + 2) Sub [Operator n Mul [da, b], Operator (n + 1) Mul [a, db]],
               Operator (n + 4) Pow' [b, Number (n + 3) (PyInt 2)]]), n + 6)"
  "differentiate_Div B (Operator i Div [a, b]) [VNum x, VExpr db] kwargs n
     = Inr (VExpr (Operator (n + 6) Div
              [Operator (n + 3) Sub
                 [Operator (n + 1) Mul [Number n x, b], Operator (n + 2) Mul [a, db]],
               Operator (n + 5) Pow' [b, Number (n + 4) (PyInt 2)]]), n + 7)"
  "differentiate_Div B (Operator i Div [a, b]) [VExpr da, VNum y] kwargs n
     = Inr (VExpr (Operator (n + 6) Div
              [Operator (n + 3) Sub
                 [Operator n Mul [da, b], Operator (n + 2) Mul [a, Number (n + 1) y]],
               Operator (n + 5) Pow' [b, Number (n + 4) (PyInt 2)]]), n + 7)"
  "differentiate_Div B (Operator i Div [a, b]) [VNum x, VNum y] kwargs n
     = Inr (VExpr (Operator (n + 7) Div
              [Operator (n + 4) Sub
                 [Operator (n + 1) Mul [Number n x, b],
                  Operator (n + 3) Mul [a, Number (n + 2) y]],
               Operator (n + 6) Pow' [b, Number (n + 5) (PyInt 2)]]), n + 8)"
  by (simp_all add: differentiate_Div_def getitem_def alloc_defs py_binop_simps)

text \<open>The power rule; it does not read the reduced exponent.\<close>

lemma pow_rule_cases:
  "differentiate_Pow B (Operator i Pow' [a, b]) (VExpr da # rest) kwargs n
     = Inr (VExpr (Operator (n + 4) Mul
              [Operator n Mul [da, b],
               Operator (n + 3) Pow' [a, Operator (n + 2) Sub [b, Number (n + 1) (PyInt 1)]]]),
            n + 5)"
  "differentiate_Pow B (Operator i Pow' [a, b]) (VNum x # rest) kwargs n
     = Inr (VExpr (Operator (n + 5) Mul
              [Operator (n + 1) Mul [Number n x, b],
               Operator (n + 4) Pow' [a, Operator (n + 3) Sub [b, Number (n + 2) (PyInt 1)]]]),
            n + 6)"
  by (simp_all add: differentiate_Pow_def getitem_def alloc_defs py_binop_simps)

text \<open>
  C10. The quotient rule returns \<^verbatim>\<open>Div(Sub(Mul(da, b), Mul(a, db)), Pow(b, Number(2)))\<close>: its
  numerator is a \<^verbatim>\<open>Sub\<close> node. The power rule returns
  \<^verbatim>\<open>Mul(Mul(da, b), Pow(a, Sub(b, Number(1))))\<close>: its exponent is a \<^verbatim>\<open>Sub\<close> node. Both are built
  from the operand objects \<^verbatim>\<open>a\<close> and \<^verbatim>\<open>b\<close> themselves, a numeric \<^verbatim>\<open>da\<close> or \<^verbatim>\<open>db\<close> being wrapped
  in a fresh \<^verbatim>\<open>Number\<close>. Hence for every expression without \<^verbatim>\<open>Sub\<close> that holds a \<^verbatim>\<open>Div\<close> or a
  \<^verbatim>\<open>Pow\<close> node, differentiation succeeds and returns an expression that holds a \<^verbatim>\<open>Sub\<close> node,
  and differentiating that derivative again raises the default rule's
  \<^verbatim>\<open>NotImplementedError\<close> for \<^verbatim>\<open>Sub\<close>.
\<close>

theorem derivative_of_div_or_pow_is_not_differentiable:
  "differentiate B (Operator i Div [a, b]) [VExpr da, VExpr db] kwargs n
     = Inr (VExpr (Operator (n + 5) Div
              [Operator (n + 2) Sub [Operator n Mul [da, b], Operator (n + 1) Mul [a, db]],
               Operator (n + 4) Pow' [b, Number (n + 3) (PyInt 2)]]), n + 6)
   \<and> differentiate B (Operator i Div [a, b]) [VNum x, VExpr db] kwargs n
     = Inr (VExpr (Operator (n + 6) Div
              [Operator (n + 3) Sub
                 [Operator (n + 1) Mul [Number n x, b], Operator (n + 2) Mul [a, db]],
               Operator (n + 5) Pow' [b, Number (n + 4) (PyInt 2)]]), n + 7)
   \<and> differentiate B (Operator i Div [a, b]) [VExpr da, VNum y] kwargs n
     = Inr (VExpr (Operator (n + 6) Div
              [Operator (n + 3) Sub
                 [Operator n Mul [da, b], Operator (n + 2) Mul [a, Number (n + 1) y]],
               Operator (n + 5) Pow' [b, Number (n + 4) (PyInt 2)]]), n + 7)
   \<and> differentiate B (Operator i Div [a, b]) [VNum x, VNum y] kwargs n
     = Inr (VExpr (Operator (n + 7) Div
              [Operator (n + 4) Sub
                 [Operator (n + 1) Mul [Number n x, b],
                  Operator (n + 3) Mul [a, Number (n + 2) y]],
               Operator (n + 6) Pow' [b, Number (n + 5) (PyInt 2)]]), n + 8)
   \<and> differentiate B (Operator i Pow' [a, b]) [VExpr da, r] kwargs n
     = Inr (VExpr (Operator (n + 4) Mul
              [Operator n Mul [da, b],
               Operator (n + 3) Pow' [a, Operator (n + 2) Sub [b, Number (n + 1) (PyInt 1)]]]),
            n + 5)
   \<and> differentiate B (Operator i Pow' [a, b]) [VNum x, r] kwargs n
     = Inr (VExpr (Operator (n + 5) Mul
              [Operator (n + 1) Mul [Number n x, b],
               Operator (n + 4) Pow' [a, Operator (n + 3) Sub [b, Number (n + 2) (PyInt 1)]]]),
            n + 6)
   \<and> (binary e \<and> wf_ids e \<and> fresh n e
        \<and> kwargs ''var'' = Some v \<and> kwargs' ''var'' = Some v'
        \<and> (has_class Div e \<or> has_class Pow' e) \<and> \<not> has_class Sub e
      \<longrightarrow> (\<exists>d n'. snd (postvisitor e (differentiate B) kwargs n) = Inr (VExpr d, n')
            \<and> has_class Sub d
            \<and> snd (postvisitor d (differentiate B) kwargs' n')
                = Inl (NotImplementedError ''Cannot differentiate Sub'')))"
proof -
  have twice:
    "\<exists>d n'. snd (postvisitor e (differentiate B) kwargs n) = Inr (VExpr d, n')
            \<and> has_class Sub d
            \<and> snd (postvisitor d (differentiate B) kwargs' n')
                = Inl (NotImplementedError ''Cannot differentiate Sub'')"
    if h: "binary e" "wf_ids e" "fresh n e" "kwargs ''var'' = Some v" "kwargs' ''var'' = Some v'"
          "has_class Div e \<or> has_class Pow' e" "\<not> has_class Sub e"
  proof -
    obtain r n' where run: "snd (postvisitor e (differentiate B) kwargs n) = Inr (r, n')"
      using differentiation_succeeds_without_sub[where kwargs = kwargs and v = v, OF h(1,2,4,7)]
      by blast
    have ok: "derivative_ok e r"
      using postvisitor_differentiate[where kwargs = kwargs and v = v, OF h(1,2,4), of B n] run
      by simp
    have "\<not> add_only e"
      using h(6) add_only_has_class[of e Div] add_only_has_class[of e Pow'] by auto
    then obtain d where d: "r = VExpr d" and bd: "binary d" and sd: "has_class Sub d"
      using ok h(6) unfolding derivative_ok_def by (auto split: pyval.splits)
    obtain S where "known S n'" "operand_in S r"
      using postvisitor_differentiate_known[where kwargs = kwargs and v = v, OF h(1,2,3,4) run]
      by blast
    then have wd: "wf_ids d"
      using d known_wf_ids by simp
    have "case snd (postvisitor d (differentiate B) kwargs' n') of
             Inl err \<Rightarrow> err = cannot_differentiate_Sub \<and> has_class Sub d
           | Inr (r, n') \<Rightarrow> derivative_ok d r"
      using bd wd h(5) by (rule postvisitor_differentiate[where kwargs = kwargs' and v = v'])
    then have "snd (postvisitor d (differentiate B) kwargs' n')
                  = Inl (NotImplementedError ''Cannot differentiate Sub'')"
      using sd by (auto simp: derivative_ok_def cannot_differentiate_Sub_def split: sum.splits)
    then show ?thesis
      using run d sd by blast
  qed
  show ?thesis
    using twice by (simp only: differentiate.simps div_rule_cases pow_rule_cases simp_thms) blast
qed

lemma derivative_div_xy:
  "snd (postvisitor (Operator 2 Div [Symbol 0 ''x'', Symbol 1 ''y'']) (differentiate B)
          [''var'' \<mapsto> VStr ''x''] 3)
     = Inr (VExpr (Operator 10 Div
              [Operator 7 Sub
                 [Operator 4 Mul [Number 3 (PyFloat (Finite 1)), Symbol 1 ''y''],
                  Operator 6 Mul [Symbol 0 ''x'', Number 5 (PyFloat (Finite 0))]],
               Operator 9 Pow' [Symbol 1 ''y'', Number 8 (PyInt 2)]]), 11)"
  by (simp add: postvisitor_def postvisitor_loop.simps Let_def differentiate_Symbol_def
      differentiate_Div_def alloc_defs getitem_def py_binop_simps)

lemma derivative_pow_x3:
  "snd (postvisitor (Operator 2 Pow' [Symbol 0 ''x'', Number 1 (PyInt 3)]) (differentiate B)
          [''var'' \<mapsto> VStr ''x''] 3)
     = Inr (VExpr (Operator 8 Mul
              [Operator 4 Mul [Number 3 (PyFloat (Finite 1)), Number 1 (PyInt 3)],
               Operator 7 Pow'
                 [Symbol 0 ''x'', Operator 6 Sub [Number 1 (PyInt 3), Number 5 (PyInt 1)]]]), 9)"
  by (simp add: postvisitor_def postvisitor_loop.simps Let_def differentiate_Symbol_def
      differentiate_Number_def differentiate_Pow_def alloc_defs getitem_def py_binop_simps)

theorem derivative_of_div_or_pow_is_not_differentiable_witness:
  "binary (Operator 2 Div [Symbol 0 ''x'', Symbol 1 ''y''])
   \<and> wf_ids (Operator 2 Div [Symbol 0 ''x'', Symbol 1 ''y''])
   \<and> fresh 3 (Operator 2 Div [Symbol 0 ''x'', Symbol 1 ''y''])
   \<and> [''var'' \<mapsto> VStr ''x''] ''var'' = Some (VStr ''x'')
   \<and> has_class Div (Operator 2 Div [Symbol 0 ''x'', Symbol 1 ''y''])
   \<and> snd (postvisitor (Operator 2 Div [Symbol 0 ''x'', Symbol 1 ''y'']) (differentiate sample_builtins)
          [''var'' \<mapsto> VStr ''x''] 3)
     = Inr (VExpr (Operator 10 Div
              [Operator 7 Sub
                 [Operator 4 Mul [Number 3 (PyFloat (Finite 1)), Symbol 1 ''y''],
                  Operator 6 Mul [Symbol 0 ''x'', Number 5 (PyFloat (Finite 0))]],
               Operator 9 Pow' [Symbol 1 ''y'', Number 8 (PyInt 2)]]), 11)
   \<and> snd (postvisitor (Operator 10 Div
              [Operator 7 Sub
                 [Operator 4 Mul [Number 3 (PyFloat (Finite 1)), Symbol 1 ''y''],
                  Operator 6 Mul [Symbol 0 ''x'', Number 5 (PyFloat (Finite 0))]],
               Operator 9 Pow' [Symbol 1 ''y'', Number 8 (PyInt 2)]])
            (differentiate sample_builtins) [''var'' \<mapsto> VStr ''x''] 11)
     = Inl (NotImplementedError ''Cannot differentiate Sub'')
   \<and> binary (Operator 2 Pow' [Symbol 0 ''x'', Number 1 (PyInt 3)])
   \<and> wf_ids (Operator 2 Pow' [Symbol 0 ''x'', Number 1 (PyInt 3)])
   \<and> fresh 3 (Operator 2 Pow' [Symbol 0 ''x'', Number 1 (PyInt 3)])
   \<and> has_class Pow' (Operator 2 Pow' [Symbol 0 ''x'', Number 1 (PyInt 3)])
   \<and> snd (postvisitor (Operator 2 Pow' [Symbol 0 ''x'', Number 1 (PyInt 3)])
            (differentiate sample_builtins) [''var'' \<mapsto> VStr ''x''] 3)
     = Inr (VExpr (Operator 8 Mul
              [Operator 4 Mul [Number 3 (PyFloat (Finite 1)), Number 1 (PyInt 3)],
               Operator 7 Pow'
                 [Symbol 0 ''x'', Operator 6 Sub [Number 1 (PyInt 3), Number 5 (PyInt 1)]]]), 9)
   \<and> snd (postvisitor (Operator 8 Mul
              [Operator 4 Mul [Number 3 (PyFloat (Finite 1)), Number 1 (PyInt 3)],
               Operator 7 Pow'
                 [Symbol 0 ''x'', Operator 6 Sub [Number 1 (PyInt 3), Number 5 (PyInt 1)]]])
            (differentiate sample_builtins) [''var'' \<mapsto> VStr ''x''] 9)
     = Inl (NotImplementedError ''Cannot differentiate Sub'')"
proof -
  let ?kw = "[''var'' \<mapsto> VStr ''x'']"
  let ?e = "Operator 2 Div [Symbol 0 ''x'', Symbol 1 ''y'']"
  let ?de = "Operator 10 Div
              [Operator 7 Sub
                 [Operator 4 Mul [Number 3 (PyFloat (Finite 1)), Symbol 1 ''y''],
                  Operator 6 Mul [Symbol 0 ''x'', Number 5 (PyFloat (Finite 0))]],
               Operator 9 Pow' [Symbol 1 ''y'', Number 8 (PyInt 2)]]"
  let ?p = "Operator 2 Pow' [Symbol 0 ''x'', Number 1 (PyInt 3)]"
  let ?dp = "Operator 8 Mul
              [Operator 4 Mul [Number 3 (PyFloat (Finite 1)), Number 1 (PyInt 3)],
               Operator 7 Pow'
                 [Symbol 0 ''x'', Operator 6 Sub [Number 1 (PyInt 3), Number 5 (PyInt 1)]]]"
  have kw: "?kw ''var'' = Some (VStr ''x'')"
    by simp
  have he: "binary ?e" "wf_ids ?e" "fresh 3 ?e" "has_class Div ?e" "\<not> has_class Sub ?e"
    by (simp_all add: wf_ids_def fresh_def)
  have hp: "binary ?p" "wf_ids ?p" "fresh 3 ?p" "has_class Pow' ?p" "\<not> has_class Sub ?p"
    by (simp_all add: wf_ids_def fresh_def)
  note inst = derivative_of_div_or_pow_is_not_differentiable
         [where kwargs = ?kw and kwargs' = ?kw and v = "VStr ''x''" and v' = "VStr ''x''"
            and n = 3 and B = sample_builtins]
  have "\<exists>d n'. snd (postvisitor ?e (differentiate sample_builtins) ?kw 3) = Inr (VExpr d, n')
          \<and> has_class Sub d
          \<and> snd (postvisitor d (differentiate sample_builtins) ?kw n')
              = Inl (NotImplementedError ''Cannot differentiate Sub'')"
    using inst[where e = ?e] kw he by blast
  then obtain d n' where
    d: "snd (postvisitor ?e (differentiate sample_builtins) ?kw 3) = Inr (VExpr d, n')"
    and f: "snd (postvisitor d (differentiate sample_builtins) ?kw n')
              = Inl (NotImplementedError ''Cannot differentiate Sub'')"
    by blast
  note rune = derivative_div_xy[of sample_builtins]
  from d have "d = ?de" "n' = 11"
    unfolding rune by simp_all
  with f have fe: "snd (postvisitor ?de (differentiate sample_builtins) ?kw 11)
              = Inl (NotImplementedError ''Cannot differentiate Sub'')"
    by simp
  have "\<exists>d n'. snd (postvisitor ?p (differentiate sample_builtins) ?kw 3) = Inr (VExpr d, n')
          \<and> has_class Sub d
          \<and> snd (postvisitor d (differentiate sample_builtins) ?kw n')
              = Inl (NotImplementedError ''Cannot differentiate Sub'')"
    using inst[where e = ?p] kw hp by blast
  then obtain d' n'' where
    d': "snd (postvisitor ?p (differentiate sample_builtins) ?kw 3) = Inr (VExpr d', n'')"
    and f': "snd (postvisitor d' (differentiate sample_builtins) ?kw n'')
              = Inl (NotImplementedError ''Cannot differentiate Sub'')"
    by blast
  note runp = derivative_pow_x3[of sample_builtins]
  from d' have "d' = ?dp" "n'' = 9"
    unfolding runp by simp_all
  with f' have fp: "snd (postvisitor ?dp (differentiate sample_builtins) ?kw 9)
              = Inl (NotImplementedError ''Cannot differentiate Sub'')"
    by simp
  from kw he(1-4) rune fe hp(1-4) runp fp show ?thesis
    by (simp only: simp_thms)
qed

end
